theory Spec2Isabelle
  imports Main
begin

section \<open>Ring buffer\<close>

text \<open>
  The class \<open>RingBuffer<T>\<close> of the TypeScript implementation. The array \<open>buffer\<close> holds
  \<open>T | null\<close>: a slot is \<open>None\<close> for \<open>null\<close> and \<open>Some item\<close> for an item, so the items
  themselves are the non-null values of \<open>T\<close> (\<open>null\<close> is the class's marker of an empty slot
  and of "nothing displaced"). The capacity is a natural number, as \<open>new Array(capacity)\<close>
  requires. Every method takes the buffer and returns its result together with the updated
  buffer.
\<close>

record 'a RingBuffer =
  buffer :: "'a option list"
  capacity :: nat
  size_rb :: nat
  front :: nat
  rear :: nat

definition RingBuffer_new :: "nat \<Rightarrow> 'a RingBuffer" where
  "RingBuffer_new c = \<lparr>buffer = replicate c None, capacity = c, size_rb = 0, front = 0, rear = 0\<rparr>"

definition isEmpty :: "'a RingBuffer \<Rightarrow> bool" where
  "isEmpty rb = (size_rb rb = 0)"

definition isFull :: "'a RingBuffer \<Rightarrow> bool" where
  "isFull rb = (size_rb rb = capacity rb)"

definition len :: "'a RingBuffer \<Rightarrow> nat" where
  "len rb = size_rb rb"

definition getCapacity :: "'a RingBuffer \<Rightarrow> nat" where
  "getCapacity rb = capacity rb"

definition push :: "'a \<Rightarrow> 'a RingBuffer \<Rightarrow> 'a option \<times> 'a RingBuffer" where
  "push item rb =
     (if capacity rb = 0 then (Some item, rb)
      else
        let (displaced, rb1) =
              (if isFull rb
               then (buffer rb ! front rb,
                     rb\<lparr>buffer := (buffer rb)[front rb := None],
                        front := (front rb + 1) mod capacity rb\<rparr>)
               else (None, rb));
            rb2 = rb1\<lparr>buffer := (buffer rb1)[rear rb1 := Some item],
                      rear := (rear rb1 + 1) mod capacity rb1\<rparr>;
            rb3 = (if displaced = None then rb2\<lparr>size_rb := size_rb rb2 + 1\<rparr> else rb2)
        in (displaced, rb3))"

definition pop :: "'a RingBuffer \<Rightarrow> 'a option \<times> 'a RingBuffer" where
  "pop rb =
     (if isEmpty rb then (None, rb)
      else (buffer rb ! front rb,
            rb\<lparr>buffer := (buffer rb)[front rb := None],
               front := (front rb + 1) mod capacity rb,
               size_rb := size_rb rb - 1\<rparr>))"

definition peek :: "'a RingBuffer \<Rightarrow> 'a option" where
  "peek rb = (if isEmpty rb then None else buffer rb ! front rb)"

definition clear :: "'a RingBuffer \<Rightarrow> nat \<times> 'a RingBuffer" where
  "clear rb =
     (size_rb rb,
      rb\<lparr>buffer := map (\<lambda>_. None) (buffer rb), size_rb := 0, front := 0, rear := 0\<rparr>)"

text \<open>
  The \<open>for\<close> loop of \<open>getAll\<close>: \<open>idx\<close> is the running index, the third argument the number
  of iterations left, and \<open>result\<close> the array built so far; a \<open>null\<close> slot is skipped.
\<close>

fun getAll_loop :: "'a RingBuffer \<Rightarrow> nat \<Rightarrow> nat \<Rightarrow> 'a list \<Rightarrow> 'a list" where
  "getAll_loop rb idx 0 result = result"
| "getAll_loop rb idx (Suc k) result =
     getAll_loop rb ((idx + 1) mod capacity rb) k
       (case buffer rb ! idx of None \<Rightarrow> result | Some item \<Rightarrow> result @ [item])"

definition getAll :: "'a RingBuffer \<Rightarrow> 'a list" where
  "getAll rb = (if isEmpty rb then [] else getAll_loop rb (front rb) (size_rb rb) [])"

text \<open>A sequence of pushes, the displaced items dropped.\<close>

fun push_all :: "'a list \<Rightarrow> 'a RingBuffer \<Rightarrow> 'a RingBuffer" where
  "push_all [] rb = rb"
| "push_all (x # xs) rb = push_all xs (snd (push x rb))"

section \<open>Messages, topics and the queue instance\<close>

text \<open>
  \<open>Message\<close>, \<open>TopicState\<close> and the private fields of \<open>MessageQueue\<close> are records. The wire
  message of \<open>broadcast\<close> is the message extended by \<open>topic_name\<close>. Topic ids are the
  numbers a caller passes, modelled as integers; subscription ids come from the counter
  \<open>nextSubId\<close> and are natural numbers. The \<open>Map\<close> of subscribers is an association list in
  insertion order, which is the order \<open>Map.values()\<close> iterates in. \<open>channel\<close> is the name of the
  open \<open>BroadcastChannel\<close>, or \<open>None\<close> for \<open>null\<close>.

  A subscriber callback is an opaque value of type \<open>'cb\<close>. All the queue observes of a call is
  whether it returns or throws, so every function that calls callbacks takes a parameter
  \<open>throws\<close> telling, for a callback and its four arguments, whether that call throws.
  Callbacks that call back into the queue are outside the model. What a function does to
  the outside is returned as a list of effects, in order: a callback invocation with its
  arguments, a \<open>console.error\<close> from the \<open>catch\<close> block, a \<open>postMessage\<close> on the channel, and
  the closing of the channel. \<open>postMessage\<close> is taken to accept the message it is given.
  The results of \<open>generateUUID()\<close> and \<open>Date.now()\<close> are
  parameters \<open>uuid\<close> and \<open>now\<close> of the functions that call them.
\<close>

record 'p Message =
  id_msg :: string
  topic_id :: int
  origin_id :: string
  payload :: 'p
  timestamp :: int

record 'p WireMsg = "'p Message" +
  topic_name :: string

record ('p, 'cb) TopicState =
  id_topic :: int
  name :: string
  subscribers :: "(nat \<times> 'cb) list"
  buffer_topic :: "'p Message RingBuffer option"
  nextSubId :: nat

record ('p, 'cb) MessageQueue =
  topics :: "('p, 'cb) TopicState list"
  topicIndex :: "string \<rightharpoonup> int"
  channel :: "string option"
  clientId :: string
  seenIds :: "string set"
  isClosed :: bool

datatype error = TopicNotFound int

datatype ('p, 'cb) effect =
    Invoke nat 'cb 'p int int string
  | ConsoleError nat
  | PostMessage int "'p WireMsg"
  | ChannelClose

datatype 'p event_data = NonArray | Tagged int "'p WireMsg"

text \<open>
  \<open>Map.prototype.set\<close> keeps the position of a key that is present and appends a new key;
  \<open>Map.prototype.delete\<close> tells whether the key was present.
\<close>

definition Map_set :: "('k \<times> 'v) list \<Rightarrow> 'k \<Rightarrow> 'v \<Rightarrow> ('k \<times> 'v) list" where
  "Map_set m k v =
     (if k \<in> fst ` set m then map (\<lambda>(k', v'). if k' = k then (k', v) else (k', v')) m
      else m @ [(k, v)])"

definition Map_delete :: "('k \<times> 'v) list \<Rightarrow> 'k \<Rightarrow> bool \<times> ('k \<times> 'v) list" where
  "Map_delete m k = (k \<in> fst ` set m, filter (\<lambda>(k', v'). k' \<noteq> k) m)"

text \<open>
  The constructor: \<open>uuid\<close> is the generated client id, and the channel is opened only for a
  non-empty channel name where \<open>BroadcastChannel\<close> exists.
\<close>

definition MessageQueue_new :: "string \<Rightarrow> string option \<Rightarrow> bool \<Rightarrow> ('p, 'cb) MessageQueue" where
  "MessageQueue_new uuid channelName hasBroadcastChannel =
     \<lparr>topics = [], topicIndex = Map.empty,
      channel = (case channelName of
                   None \<Rightarrow> None
                 | Some n \<Rightarrow> if n \<noteq> [] \<and> hasBroadcastChannel then Some n else None),
      clientId = uuid, seenIds = {}, isClosed = False\<rparr>"

text \<open>
  \<open>this.topics[id]\<close> is \<open>undefined\<close> outside the array. A topic object is mutated in place;
  \<open>setTopic\<close> writes the mutated object back at its index, and is only used on an index that
  \<open>getTopic\<close> has found.
\<close>

definition getTopic :: "('p, 'cb) MessageQueue \<Rightarrow> int \<Rightarrow> ('p, 'cb) TopicState option" where
  "getTopic mq i =
     (if 0 \<le> i \<and> i < int (length (topics mq)) then Some (topics mq ! nat i) else None)"

definition setTopic :: "('p, 'cb) MessageQueue \<Rightarrow> int \<Rightarrow> ('p, 'cb) TopicState \<Rightarrow> ('p, 'cb) MessageQueue" where
  "setTopic mq i t = mq\<lparr>topics := (topics mq)[nat i := t]\<rparr>"

definition registerTopic :: "('p, 'cb) MessageQueue \<Rightarrow> string \<Rightarrow> int \<times> ('p, 'cb) MessageQueue" where
  "registerTopic mq nm =
     (case topicIndex mq nm of
        Some i \<Rightarrow> (i, mq)
      | None \<Rightarrow>
          let i = int (length (topics mq));
              topicState = \<lparr>id_topic = i, name = nm, subscribers = [],
                            buffer_topic = None, nextSubId = 0\<rparr>
          in (i, mq\<lparr>topics := topics mq @ [topicState],
                    topicIndex := (topicIndex mq)(nm \<mapsto> i)\<rparr>))"

definition subscribe :: "('p, 'cb) MessageQueue \<Rightarrow> int \<Rightarrow> 'cb \<Rightarrow> error + nat \<times> ('p, 'cb) MessageQueue" where
  "subscribe mq topicId callback =
     (case getTopic mq topicId of
        None \<Rightarrow> Inl (TopicNotFound topicId)
      | Some t \<Rightarrow>
          let subId = nextSubId t;
              t1 = t\<lparr>nextSubId := subId + 1\<rparr>;
              t2 = t1\<lparr>subscribers := Map_set (subscribers t1) subId callback\<rparr>
          in Inr (subId, setTopic mq topicId t2))"

definition unsubscribe :: "('p, 'cb) MessageQueue \<Rightarrow> int \<Rightarrow> nat \<Rightarrow> bool \<times> ('p, 'cb) MessageQueue" where
  "unsubscribe mq topicId subId =
     (case getTopic mq topicId of
        None \<Rightarrow> (False, mq)
      | Some t \<Rightarrow>
          let (found, subs) = Map_delete (subscribers t) subId
          in (found, setTopic mq topicId (t\<lparr>subscribers := subs\<rparr>)))"

definition unsubscribeAll :: "('p, 'cb) MessageQueue \<Rightarrow> int \<Rightarrow> nat \<times> ('p, 'cb) MessageQueue" where
  "unsubscribeAll mq topicId =
     (case getTopic mq topicId of
        None \<Rightarrow> (0, mq)
      | Some t \<Rightarrow> (length (subscribers t), setTopic mq topicId (t\<lparr>subscribers := []\<rparr>)))"

definition createMessage :: "('p, 'cb) MessageQueue \<Rightarrow> int \<Rightarrow> 'p \<Rightarrow> string \<Rightarrow> int \<Rightarrow> 'p Message" where
  "createMessage mq topicId p uuid now =
     \<lparr>id_msg = uuid, topic_id = topicId, origin_id = clientId mq, payload = p, timestamp = now\<rparr>"

text \<open>
  The loop over \<open>topic.subscribers.values()\<close> with its \<open>try\<close>/\<open>catch\<close>: each callback is
  invoked with \<open>(payload, topic_id, timestamp, id)\<close>; when the call throws, the error is
  logged and the loop goes on.
\<close>

fun notify :: "('cb \<Rightarrow> 'p \<Rightarrow> int \<Rightarrow> int \<Rightarrow> string \<Rightarrow> bool) \<Rightarrow> (nat \<times> 'cb) list \<Rightarrow> 'p Message
                \<Rightarrow> ('p, 'cb) effect list" where
  "notify throws [] msg = []"
| "notify throws ((subId, callback) # rest) msg =
     Invoke subId callback (payload msg) (topic_id msg) (timestamp msg) (id_msg msg)
       # (if throws callback (payload msg) (topic_id msg) (timestamp msg) (id_msg msg)
          then ConsoleError subId # notify throws rest msg
          else notify throws rest msg)"

definition dispatchLocal :: "('cb \<Rightarrow> 'p \<Rightarrow> int \<Rightarrow> int \<Rightarrow> string \<Rightarrow> bool) \<Rightarrow> ('p, 'cb) MessageQueue \<Rightarrow> 'p Message
                \<Rightarrow> ('p, 'cb) effect list \<times> ('p, 'cb) MessageQueue" where
  "dispatchLocal throws mq msg =
     (if isClosed mq then ([], mq)
      else
        let mq1 = mq\<lparr>seenIds := insert (id_msg msg) (seenIds mq)\<rparr>
        in case getTopic mq1 (topic_id msg) of
             None \<Rightarrow> ([], mq1)
           | Some t \<Rightarrow>
               let t1 = (case buffer_topic t of
                           None \<Rightarrow> t
                         | Some rb \<Rightarrow> t\<lparr>buffer_topic := Some (snd (push msg rb))\<rparr>)
               in (notify throws (subscribers t1) msg, setTopic mq1 (topic_id msg) t1))"

definition broadcast :: "('p, 'cb) MessageQueue \<Rightarrow> 'p Message \<Rightarrow> ('p, 'cb) effect list" where
  "broadcast mq msg =
     (if channel mq \<noteq> None \<and> \<not> isClosed mq
      then case getTopic mq (topic_id msg) of
             None \<Rightarrow> []
           | Some t \<Rightarrow>
               [PostMessage 0 \<lparr>id_msg = id_msg msg, topic_id = topic_id msg,
                               origin_id = origin_id msg, payload = payload msg,
                               timestamp = timestamp msg, topic_name = name t\<rparr>]
      else [])"

definition publish :: "('cb \<Rightarrow> 'p \<Rightarrow> int \<Rightarrow> int \<Rightarrow> string \<Rightarrow> bool) \<Rightarrow> ('p, 'cb) MessageQueue \<Rightarrow> int \<Rightarrow> 'p \<Rightarrow> string \<Rightarrow> int
                \<Rightarrow> ('p, 'cb) effect list \<times> ('p, 'cb) MessageQueue" where
  "publish throws mq topicId p uuid now =
     (let msg = createMessage mq topicId p uuid now;
          (e1, mq1) = dispatchLocal throws mq msg;
          e2 = broadcast mq1 msg
      in (e1 @ e2, mq1))"

fun publishBatchById :: "('cb \<Rightarrow> 'p \<Rightarrow> int \<Rightarrow> int \<Rightarrow> string \<Rightarrow> bool) \<Rightarrow> ('p, 'cb) MessageQueue \<Rightarrow> int \<Rightarrow> ('p \<times> string \<times> int) list
                \<Rightarrow> ('p, 'cb) effect list \<times> ('p, 'cb) MessageQueue" where
  "publishBatchById throws mq topicId [] = ([], mq)"
| "publishBatchById throws mq topicId ((p, uuid, now) # payloads) =
     (let (e1, mq1) = publish throws mq topicId p uuid now;
          (e2, mq2) = publishBatchById throws mq1 topicId payloads
      in (e1 @ e2, mq2))"

definition enableTopicBuffer :: "('p, 'cb) MessageQueue \<Rightarrow> int \<Rightarrow> nat option \<Rightarrow> ('p, 'cb) MessageQueue" where
  "enableTopicBuffer mq topicId cap =
     (let c = (case cap of None \<Rightarrow> 100 | Some c' \<Rightarrow> c')
      in case getTopic mq topicId of
           None \<Rightarrow> mq
         | Some t \<Rightarrow> setTopic mq topicId (t\<lparr>buffer_topic := Some (RingBuffer_new c)\<rparr>))"

definition disableTopicBuffer :: "('p, 'cb) MessageQueue \<Rightarrow> int \<Rightarrow> ('p, 'cb) MessageQueue" where
  "disableTopicBuffer mq topicId =
     (case getTopic mq topicId of
        None \<Rightarrow> mq
      | Some t \<Rightarrow> setTopic mq topicId (t\<lparr>buffer_topic := None\<rparr>))"

definition clearBuffer :: "('p, 'cb) MessageQueue \<Rightarrow> int \<Rightarrow> nat \<times> ('p, 'cb) MessageQueue" where
  "clearBuffer mq topicId =
     (case getTopic mq topicId of
        None \<Rightarrow> (0, mq)
      | Some t \<Rightarrow>
          (case buffer_topic t of
             None \<Rightarrow> (0, mq)
           | Some rb \<Rightarrow>
               let (n, rb1) = clear rb
               in (n, setTopic mq topicId (t\<lparr>buffer_topic := Some rb1\<rparr>))))"

definition getBufferedMessages :: "('p, 'cb) MessageQueue \<Rightarrow> int \<Rightarrow> 'p list" where
  "getBufferedMessages mq topicId =
     (case getTopic mq topicId of
        None \<Rightarrow> []
      | Some t \<Rightarrow> (case buffer_topic t of None \<Rightarrow> [] | Some rb \<Rightarrow> map payload (getAll rb)))"

definition getBufferSize :: "('p, 'cb) MessageQueue \<Rightarrow> int \<Rightarrow> nat" where
  "getBufferSize mq topicId =
     (case getTopic mq topicId of
        None \<Rightarrow> 0
      | Some t \<Rightarrow> (case buffer_topic t of None \<Rightarrow> 0 | Some rb \<Rightarrow> len rb))"

definition getBufferCapacity :: "('p, 'cb) MessageQueue \<Rightarrow> int \<Rightarrow> nat" where
  "getBufferCapacity mq topicId =
     (case getTopic mq topicId of
        None \<Rightarrow> 0
      | Some t \<Rightarrow> (case buffer_topic t of None \<Rightarrow> 0 | Some rb \<Rightarrow> getCapacity rb))"

definition hasBuffer :: "('p, 'cb) MessageQueue \<Rightarrow> int \<Rightarrow> bool" where
  "hasBuffer mq topicId =
     (case getTopic mq topicId of
        None \<Rightarrow> False
      | Some t \<Rightarrow> buffer_topic t \<noteq> None)"

definition handleChannelMessage :: "('cb \<Rightarrow> 'p \<Rightarrow> int \<Rightarrow> int \<Rightarrow> string \<Rightarrow> bool) \<Rightarrow> ('p, 'cb) MessageQueue \<Rightarrow> 'p event_data
                \<Rightarrow> ('p, 'cb) effect list \<times> ('p, 'cb) MessageQueue" where
  "handleChannelMessage throws mq data =
     (if isClosed mq then ([], mq)
      else case data of
             NonArray \<Rightarrow> ([], mq)
           | Tagged type wireMsg \<Rightarrow>
               if type = 0 then
                 if id_msg wireMsg \<in> seenIds mq then ([], mq)
                 else
                   let mq1 = mq\<lparr>seenIds := insert (id_msg wireMsg) (seenIds mq)\<rparr>
                   in if origin_id wireMsg = clientId mq1 then ([], mq1)
                      else
                        let (topicId, mq2) = registerTopic mq1 (topic_name wireMsg);
                            msg = \<lparr>id_msg = id_msg wireMsg, topic_id = topicId,
                                   origin_id = origin_id wireMsg, payload = payload wireMsg,
                                   timestamp = timestamp wireMsg\<rparr>
                        in dispatchLocal throws mq2 msg
               else ([], mq))"

definition subscriberCount :: "('p, 'cb) MessageQueue \<Rightarrow> int \<Rightarrow> nat" where
  "subscriberCount mq topicId =
     (case getTopic mq topicId of None \<Rightarrow> 0 | Some t \<Rightarrow> length (subscribers t))"

definition destroyTopic :: "('p, 'cb) MessageQueue \<Rightarrow> int \<Rightarrow> bool \<times> ('p, 'cb) MessageQueue" where
  "destroyTopic mq topicId =
     (case getTopic mq topicId of
        None \<Rightarrow> (False, mq)
      | Some t \<Rightarrow>
          let t1 = t\<lparr>subscribers := []\<rparr>;
              t2 = t1\<lparr>buffer_topic := None\<rparr>
          in (True, setTopic mq topicId t2))"

text \<open>
  \<open>close\<close> follows the statements of the source one by one; \<open>clearTopic\<close> is the body of its
  \<open>forEach\<close>.
\<close>

definition clearTopic :: "('p, 'cb) TopicState \<Rightarrow> ('p, 'cb) TopicState" where
  "clearTopic t =
     (let t1 = t\<lparr>subscribers := []\<rparr>
      in case buffer_topic t1 of
           None \<Rightarrow> t1
         | Some rb \<Rightarrow> t1\<lparr>buffer_topic := Some (snd (clear rb))\<rparr>)"

definition close :: "('p, 'cb) MessageQueue \<Rightarrow> ('p, 'cb) effect list \<times> ('p, 'cb) MessageQueue" where
  "close mq =
     (let mq1 = mq\<lparr>isClosed := True\<rparr>;
          (e, mq2) = (case channel mq1 of
                        None \<Rightarrow> ([], mq1)
                      | Some c \<Rightarrow> ([ChannelClose], mq1\<lparr>channel := None\<rparr>));
          mq3 = mq2\<lparr>topics := map clearTopic (topics mq2)\<rparr>;
          mq4 = mq3\<lparr>topics := []\<rparr>;
          mq5 = mq4\<lparr>topicIndex := Map.empty\<rparr>;
          mq6 = mq5\<lparr>seenIds := {}\<rparr>
      in (e, mq6))"

section \<open>The programmatic surface as calls\<close>

text \<open>
  A call of a public method, or the delivery of a channel event to \<open>handleChannelMessage\<close>, and
  what the caller sees of it: the value returned or the error raised, the effects, and the
  instance afterwards. \<open>run\<close> applies a sequence of calls; a caller that catches the error of
  a call goes on with the instance as the call left it. The states \<open>run\<close> reaches from
  \<open>MessageQueue_new\<close> are the states an instance can be in, its callbacks not calling
  back into it.
\<close>

datatype ('p, 'cb) call =
    RegisterTopic string
  | Subscribe int 'cb
  | Unsubscribe int nat
  | UnsubscribeAll int
  | Publish int 'p string int
  | PublishBatchById int "('p \<times> string \<times> int) list"
  | EnableTopicBuffer int "nat option"
  | DisableTopicBuffer int
  | ClearBuffer int
  | DestroyTopic int
  | Close
  | ChannelMessage "'p event_data"

datatype outcome = Raised error | Returned_void | Returned_bool bool | Returned_number int

fun api :: "('cb \<Rightarrow> 'p \<Rightarrow> int \<Rightarrow> int \<Rightarrow> string \<Rightarrow> bool) \<Rightarrow> ('p, 'cb) MessageQueue \<Rightarrow> ('p, 'cb) call
             \<Rightarrow> outcome \<times> ('p, 'cb) effect list \<times> ('p, 'cb) MessageQueue" where
  "api throws mq (RegisterTopic nm) =
     (let (i, mq1) = registerTopic mq nm in (Returned_number i, [], mq1))"
| "api throws mq (Subscribe topicId callback) =
     (case subscribe mq topicId callback of
        Inl e \<Rightarrow> (Raised e, [], mq)
      | Inr (subId, mq1) \<Rightarrow> (Returned_number (int subId), [], mq1))"
| "api throws mq (Unsubscribe topicId subId) =
     (let (b, mq1) = unsubscribe mq topicId subId in (Returned_bool b, [], mq1))"
| "api throws mq (UnsubscribeAll topicId) =
     (let (n, mq1) = unsubscribeAll mq topicId in (Returned_number (int n), [], mq1))"
| "api throws mq (Publish topicId p uuid now) =
     (let (e, mq1) = publish throws mq topicId p uuid now in (Returned_void, e, mq1))"
| "api throws mq (PublishBatchById topicId payloads) =
     (let (e, mq1) = publishBatchById throws mq topicId payloads in (Returned_void, e, mq1))"
| "api throws mq (EnableTopicBuffer topicId cap) =
     (Returned_void, [], enableTopicBuffer mq topicId cap)"
| "api throws mq (DisableTopicBuffer topicId) =
     (Returned_void, [], disableTopicBuffer mq topicId)"
| "api throws mq (ClearBuffer topicId) =
     (let (n, mq1) = clearBuffer mq topicId in (Returned_number (int n), [], mq1))"
| "api throws mq (DestroyTopic topicId) =
     (let (b, mq1) = destroyTopic mq topicId in (Returned_bool b, [], mq1))"
| "api throws mq Close =
     (let (e, mq1) = close mq in (Returned_void, e, mq1))"
| "api throws mq (ChannelMessage data) =
     (let (e, mq1) = handleChannelMessage throws mq data in (Returned_void, e, mq1))"

fun run :: "('cb \<Rightarrow> 'p \<Rightarrow> int \<Rightarrow> int \<Rightarrow> string \<Rightarrow> bool) \<Rightarrow> ('p, 'cb) MessageQueue \<Rightarrow> ('p, 'cb) call list
             \<Rightarrow> ('p, 'cb) MessageQueue" where
  "run throws mq [] = mq"
| "run throws mq (c # cs) = run throws (snd (snd (api throws mq c))) cs"

text \<open>The callback invocations and the channel posts among a list of effects.\<close>

fun invocations :: "('p, 'cb) effect list \<Rightarrow> (nat \<times> 'cb \<times> 'p \<times> int \<times> int \<times> string) list" where
  "invocations [] = []"
| "invocations (Invoke subId cb p topicId ts mid # es) = (subId, cb, p, topicId, ts, mid) # invocations es"
| "invocations (e # es) = invocations es"

fun posted :: "('p, 'cb) effect list \<Rightarrow> (int \<times> 'p WireMsg) list" where
  "posted [] = []"
| "posted (PostMessage k w # es) = (k, w) # posted es"
| "posted (e # es) = posted es"

text \<open>Registering a list of names in order, collecting the ids returned.\<close>

fun registerAll :: "('p, 'cb) MessageQueue \<Rightarrow> string list \<Rightarrow> int list \<times> ('p, 'cb) MessageQueue" where
  "registerAll mq [] = ([], mq)"
| "registerAll mq (nm # nms) =
     (let (i, mq1) = registerTopic mq nm;
          (ids, mq2) = registerAll mq1 nms
      in (i # ids, mq2))"

fun publish_or_subscribe :: "('p, 'cb) call \<Rightarrow> bool" where
  "publish_or_subscribe (Publish topicId p uuid now) = True"
| "publish_or_subscribe (PublishBatchById topicId payloads) = True"
| "publish_or_subscribe (Subscribe topicId cb) = True"
| "publish_or_subscribe c = False"

section \<open>Invariants of an instance\<close>

text \<open>
  \<open>subs_ok\<close>: the subscription ids of a topic increase strictly along its subscriber table and
  lie below \<open>nextSubId\<close>. \<open>index_ok\<close>: every entry of \<open>topicIndex\<close> points at a slot of
  \<open>topics\<close> that carries its name. Both hold of a new instance and are kept by every call.
\<close>

definition subs_ok :: "('p, 'cb) TopicState \<Rightarrow> bool" where
  "subs_ok t \<longleftrightarrow>
     sorted_wrt (<) (map fst (subscribers t)) \<and>
     list_all (\<lambda>k. k < nextSubId t) (map fst (subscribers t))"

definition index_ok :: "('p, 'cb) MessageQueue \<Rightarrow> bool" where
  "index_ok mq \<longleftrightarrow>
     (\<forall>nm i. topicIndex mq nm = Some i \<longrightarrow> (\<exists>t. getTopic mq i = Some t \<and> name t = nm))"

definition queue_inv :: "('p, 'cb) MessageQueue \<Rightarrow> bool" where
  "queue_inv mq \<longleftrightarrow> index_ok mq \<and> list_all subs_ok (topics mq)"

section \<open>Abstraction of the ring buffer\<close>

text \<open>
  \<open>rb_rel rb ys\<close> relates a ring buffer of positive capacity to the list \<open>ys\<close> of the
  items it stores, oldest first: the \<open>i\<close>-th item sits in slot \<open>(front + i) mod capacity\<close>.
  It holds of a new buffer and \<open>push\<close> keeps it; under it every index that \<open>push\<close> and
  \<open>getAll\<close> read or write lies inside the array, so the reads by \<open>!\<close> and the writes by
  list update are the ones the source performs.
\<close>

definition rb_rel :: "'a RingBuffer \<Rightarrow> 'a list \<Rightarrow> bool" where
  "rb_rel rb ys \<longleftrightarrow>
     0 < capacity rb \<and> length (buffer rb) = capacity rb \<and> front rb < capacity rb \<and>
     size_rb rb = length ys \<and> length ys \<le> capacity rb \<and>
     rear rb = (front rb + length ys) mod capacity rb \<and>
     (\<forall>i < length ys. buffer rb ! ((front rb + i) mod capacity rb) = Some (ys ! i))"

section \<open>Example instances\<close>

text \<open>
  Concrete callbacks, instances and channel messages on which the theorems below are
  instantiated. Payloads and callbacks are natural numbers here.
\<close>

definition never_throws :: "nat \<Rightarrow> nat \<Rightarrow> int \<Rightarrow> int \<Rightarrow> string \<Rightarrow> bool" where
  "never_throws cb p topicId ts mid = False"

definition odd_throws :: "nat \<Rightarrow> nat \<Rightarrow> int \<Rightarrow> int \<Rightarrow> string \<Rightarrow> bool" where
  "odd_throws cb p topicId ts mid = odd cb"

definition example_queue :: "(nat, nat) MessageQueue" where
  "example_queue = MessageQueue_new ''client-A'' (Some ''tabs'') True"

definition one_topic :: "(nat, nat) MessageQueue" where
  "one_topic = run never_throws example_queue
     [RegisterTopic ''news'', Subscribe 0 10, Subscribe 0 11, EnableTopicBuffer 0 (Some 2),
      Publish 0 7 ''m1'' 1000]"

definition two_topics :: "(nat, nat) MessageQueue" where
  "two_topics = run never_throws example_queue
     [RegisterTopic ''news'', RegisterTopic ''logs'', Subscribe 0 10, Subscribe 1 20,
      EnableTopicBuffer 0 (Some 2), EnableTopicBuffer 1 None,
      Publish 0 7 ''m1'' 1000, Publish 1 8 ''m2'' 1001]"

definition mixed_subscribers :: "(nat, nat) MessageQueue" where
  "mixed_subscribers = run odd_throws example_queue
     [RegisterTopic ''news'', Subscribe 0 10, Subscribe 0 11, Subscribe 0 12]"

definition resubscribed :: "(nat, nat) MessageQueue" where
  "resubscribed = run never_throws example_queue
     [RegisterTopic ''news'', Subscribe 0 10, Subscribe 0 11, Unsubscribe 0 0, Subscribe 0 12]"

definition closed_then_registered :: "(nat, nat) MessageQueue" where
  "closed_then_registered = run never_throws example_queue
     [Close, RegisterTopic ''news'', Subscribe 0 10]"

definition closed_with_thrower :: "(nat, nat) MessageQueue" where
  "closed_with_thrower = run odd_throws example_queue
     [Close, RegisterTopic ''news'', Subscribe 0 11, Subscribe 0 12]"

definition remote_news :: "nat WireMsg" where
  "remote_news = \<lparr>id_msg = ''m7'', topic_id = 4, origin_id = ''client-B'', payload = 9,
                   timestamp = 2000, topic_name = ''news''\<rparr>"

definition remote_alerts :: "nat WireMsg" where
  "remote_alerts = \<lparr>id_msg = ''m8'', topic_id = 0, origin_id = ''client-B'', payload = 5,
                     timestamp = 2001, topic_name = ''alerts''\<rparr>"

definition own_origin_news :: "nat WireMsg" where
  "own_origin_news = \<lparr>id_msg = ''m9'', topic_id = 0, origin_id = ''client-A'', payload = 3,
                       timestamp = 2002, topic_name = ''news''\<rparr>"

section \<open>Ring buffer: proofs\<close>

lemma mod_add_inj_le:
  fixes f i j c :: nat
  assumes "i \<le> j" "j < c" "(f + i) mod c = (f + j) mod c"
  shows "i = j"
proof -
  have "c dvd (f + j) - (f + i)"
    using assms(1) assms(3)[symmetric] by (simp add: mod_eq_dvd_iff_nat)
  then have "c dvd j - i" by simp
  moreover have "j - i < c" using assms(2) by simp
  ultimately have "j - i = 0" by (meson dvd_imp_le not_less zero_less_iff_neq_zero)
  with assms(1) show ?thesis by simp
qed

lemma mod_add_inj:
  fixes f i j c :: nat
  assumes "i < c" "j < c" "(f + i) mod c = (f + j) mod c"
  shows "i = j"
proof (cases "i \<le> j")
  case True
  then show ?thesis using mod_add_inj_le[of i j c f] assms by simp
next
  case False
  then have "j \<le> i" by simp
  then show ?thesis using mod_add_inj_le[of j i c f] assms by simp
qed

lemma getAll_loop_rel:
  assumes "rb_rel rb ys"
  shows "i + k = length ys \<Longrightarrow>
         getAll_loop rb ((front rb + i) mod capacity rb) k acc = acc @ drop i ys"
proof (induction k arbitrary: i acc)
  case 0
  then show ?case by simp
next
  case (Suc k)
  from Suc.prems have i: "i < length ys" by simp
  with assms have slot: "buffer rb ! ((front rb + i) mod capacity rb) = Some (ys ! i)"
    by (simp add: rb_rel_def)
  have nxt: "((front rb + i) mod capacity rb + 1) mod capacity rb = (front rb + Suc i) mod capacity rb"
    by (simp add: mod_Suc_eq)
  from Suc.prems have "Suc i + k = length ys" by simp
  from Suc.IH[OF this] show ?case
    using slot nxt i by (simp add: Cons_nth_drop_Suc)
qed

lemma getAll_rel: "rb_rel rb ys \<Longrightarrow> getAll rb = ys"
  using getAll_loop_rel[of rb ys 0 "length ys" "[]"]
  by (auto simp: getAll_def isEmpty_def rb_rel_def)

lemma rb_rel_new: "0 < c \<Longrightarrow> rb_rel (RingBuffer_new c) []"
  by (simp add: rb_rel_def RingBuffer_new_def)

lemma push_not_full_eq:
  assumes "0 < capacity rb" "size_rb rb < capacity rb"
  shows "push x rb = (None, rb\<lparr>buffer := (buffer rb)[rear rb := Some x],
                               rear := (rear rb + 1) mod capacity rb,
                               size_rb := size_rb rb + 1\<rparr>)"
  using assms by (simp add: push_def isFull_def)

lemma push_full_eq:
  assumes "0 < capacity rb" "size_rb rb = capacity rb" "buffer rb ! front rb = Some y"
  shows "push x rb = (Some y, rb\<lparr>buffer := (buffer rb)[front rb := None, rear rb := Some x],
                               front := (front rb + 1) mod capacity rb,
                               rear := (rear rb + 1) mod capacity rb\<rparr>)"
  using assms by (simp add: push_def isFull_def)

lemma push_not_full:
  assumes "rb_rel rb ys" "length ys < capacity rb"
  shows "fst (push x rb) = None \<and> rb_rel (snd (push x rb)) (ys @ [x])"
proof -
  let ?c = "capacity rb"
  let ?r = "(front rb + length ys) mod ?c"
  from assms(1) have c: "0 < ?c" and lb: "length (buffer rb) = ?c" and f: "front rb < ?c"
    and sz: "size_rb rb = length ys" and r: "rear rb = ?r"
    and sl: "\<And>i. i < length ys \<Longrightarrow> buffer rb ! ((front rb + i) mod ?c) = Some (ys ! i)"
    by (simp_all add: rb_rel_def)
  have eq: "push x rb = (None, rb\<lparr>buffer := (buffer rb)[?r := Some x],
                               rear := (?r + 1) mod ?c, size_rb := length ys + 1\<rparr>)"
    using push_not_full_eq[of rb x] c sz r assms(2) by simp
  have slots: "(buffer rb)[?r := Some x] ! ((front rb + i) mod ?c) = Some ((ys @ [x]) ! i)"
    if "i < length ys + 1" for i
  proof (cases "i < length ys")
    case True
    then have "(front rb + i) mod ?c \<noteq> ?r"
      using mod_add_inj[of i ?c "length ys" "front rb"] assms(2) by auto
    then show ?thesis using True sl by (simp add: nth_append)
  next
    case False
    with that have "i = length ys" by simp
    then show ?thesis using lb c by simp
  qed
  show ?thesis
    unfolding eq using c lb f assms(2) slots by (simp add: rb_rel_def mod_Suc_eq)
qed

lemma push_full:
  assumes "rb_rel rb ys" "length ys = capacity rb"
  shows "fst (push x rb) = Some (hd ys) \<and> rb_rel (snd (push x rb)) (tl ys @ [x])"
proof -
  let ?c = "capacity rb"
  let ?f = "front rb"
  from assms(1) have c: "0 < ?c" and lb: "length (buffer rb) = ?c" and f: "?f < ?c"
    and sz: "size_rb rb = length ys" and r: "rear rb = (?f + length ys) mod ?c"
    and sl: "\<And>i. i < length ys \<Longrightarrow> buffer rb ! ((?f + i) mod ?c) = Some (ys ! i)"
    by (simp_all add: rb_rel_def)
  from c assms(2) have ne: "ys \<noteq> []" by auto
  have r': "rear rb = ?f" using r assms(2) f by simp
  have "buffer rb ! ?f = Some (ys ! 0)" using sl[of 0] c assms(2) f by simp
  then have hd: "buffer rb ! ?f = Some (hd ys)" using ne by (simp add: hd_conv_nth)
  have eq: "push x rb = (Some (hd ys), rb\<lparr>buffer := (buffer rb)[?f := Some x],
                               front := (?f + 1) mod ?c,
                               rear := (?f + 1) mod ?c\<rparr>)"
    using push_full_eq[of rb "hd ys" x] c sz assms(2) hd r' by simp
  have slots: "(buffer rb)[?f := Some x] ! (((?f + 1) mod ?c + i) mod ?c) = Some ((tl ys @ [x]) ! i)"
    if "i < ?c" for i
  proof -
    have idx: "((?f + 1) mod ?c + i) mod ?c = (?f + (i + 1)) mod ?c"
    proof -
      have "((?f + 1) mod ?c + i) mod ?c = ((?f + 1) + i) mod ?c"
        by (rule mod_add_left_eq)
      also have "(?f + 1) + i = ?f + (i + 1)" by simp
      finally show ?thesis .
    qed
    show ?thesis
    proof (cases "i + 1 < ?c")
      case True
      then have "(?f + (i + 1)) mod ?c \<noteq> (?f + 0) mod ?c"
        using mod_add_inj[of "i + 1" ?c 0 ?f] c by auto
      then have "(?f + (i + 1)) mod ?c \<noteq> ?f" using f by simp
      moreover have "buffer rb ! ((?f + (i + 1)) mod ?c) = Some (ys ! (i + 1))"
        using sl[of "i + 1"] True assms(2) by simp
      moreover have "(tl ys @ [x]) ! i = ys ! (i + 1)"
      proof -
        have "i < length (tl ys)" using True assms(2) by simp
        then show ?thesis by (simp add: nth_append nth_tl)
      qed
      ultimately show ?thesis using idx by simp
    next
      case False
      with that have i: "i + 1 = ?c" by simp
      then have "(?f + (i + 1)) mod ?c = ?f" using f by simp
      moreover have "(tl ys @ [x]) ! i = x"
      proof -
        have "length (tl ys) = i" using i assms(2) by simp
        then show ?thesis by (simp add: nth_append)
      qed
      ultimately show ?thesis using idx lb f by simp
    qed
  qed
  have len: "length (tl ys @ [x]) = ?c" using assms(2) c by simp
  show ?thesis
    unfolding eq using c lb f len slots sz assms(2) by (simp add: rb_rel_def)
qed

lemma capacity_push: "capacity (snd (push x rb)) = capacity rb"
  by (simp add: push_def Let_def split: prod.splits)

lemma push_all_rel:
  assumes "rb_rel rb ys"
  shows "rb_rel (push_all xs rb) (drop (length (ys @ xs) - capacity rb) (ys @ xs))"
  using assms
proof (induction xs arbitrary: rb ys)
  case Nil
  then show ?case by (simp add: rb_rel_def)
next
  case (Cons x xs)
  let ?rb' = "snd (push x rb)"
  have cap: "capacity ?rb' = capacity rb" by (rule capacity_push)
  from Cons.prems have le: "length ys \<le> capacity rb" and c: "0 < capacity rb"
    by (simp_all add: rb_rel_def)
  show ?case
  proof (cases "length ys < capacity rb")
    case True
    then have "rb_rel ?rb' (ys @ [x])" using push_not_full[OF Cons.prems] by simp
    from Cons.IH[OF this] show ?thesis by (simp add: cap)
  next
    case False
    with le have full: "length ys = capacity rb" by simp
    then have rel: "rb_rel ?rb' (tl ys @ [x])" using push_full[OF Cons.prems] by simp
    from full c obtain y ys' where ys: "ys = y # ys'" by (cases ys) auto
    have n1: "length ((tl ys @ [x]) @ xs) - capacity rb = length xs"
      using full ys by simp
    have n2: "length (ys @ x # xs) - capacity rb = Suc (length xs)"
      using full by simp
    have "drop (length xs) ((tl ys @ [x]) @ xs) = drop (Suc (length xs)) (ys @ x # xs)"
      by (simp add: ys)
    with Cons.IH[OF rel] show ?thesis
      unfolding cap n1 by (simp only: push_all.simps n2)
  qed
qed

lemma capacity_push_all: "capacity (push_all xs rb) = capacity rb"
  by (induction xs arbitrary: rb) (simp_all add: capacity_push)

lemma push_all_capacity_0:
  "capacity rb = 0 \<Longrightarrow> push_all xs rb = rb"
  by (induction xs) (simp_all add: push_def)

lemma isFull_push_all:
  "0 < C \<Longrightarrow> isFull (push_all xs (RingBuffer_new C)) \<longleftrightarrow> C \<le> length xs"
  using push_all_rel[OF rb_rel_new, of C xs] capacity_push_all[of xs "RingBuffer_new C"]
  by (auto simp: rb_rel_def isFull_def RingBuffer_new_def)


text \<open>
  C2. For every capacity \<open>C\<close> and every sequence \<open>xs\<close> of pushes into a fresh ring buffer of
  capacity \<open>C\<close>: the snapshot \<open>getAll\<close> has length \<open>min (length xs) C\<close> and is the last \<open>C\<close>
  pushed items in push order. With \<open>C = 0\<close> a further push returns its own item as evicted
  and the snapshot stays empty; with \<open>C > 0\<close> a push onto a full buffer returns the oldest
  stored item, and a push onto a buffer that is not full returns nothing.
\<close>

theorem ring_buffer_keeps_last_pushes:
  "getAll (push_all xs (RingBuffer_new C)) = drop (length xs - C) xs \<and>
   length (getAll (push_all xs (RingBuffer_new C))) = min (length xs) C \<and>
   len (push_all xs (RingBuffer_new C)) = min (length xs) C \<and>
   fst (push x (push_all xs (RingBuffer_new C))) =
     (if C = 0 then Some x
      else if isFull (push_all xs (RingBuffer_new C))
           then Some (hd (getAll (push_all xs (RingBuffer_new C))))
           else None) \<and>
   (isFull (push_all xs (RingBuffer_new C)) \<longleftrightarrow> C \<le> length xs)"
proof (cases "C = 0")
  case True
  have "push_all xs (RingBuffer_new 0) = (RingBuffer_new 0 :: 'a RingBuffer)"
    by (rule push_all_capacity_0) (simp add: RingBuffer_new_def)
  then show ?thesis using True
    by (simp add: getAll_def isEmpty_def isFull_def RingBuffer_new_def push_def len_def)
next
  case False
  let ?rb = "push_all xs (RingBuffer_new C) :: 'a RingBuffer"
  let ?ys = "drop (length xs - C) xs"
  from False have rel: "rb_rel ?rb ?ys"
    using push_all_rel[OF rb_rel_new, of C xs] by (simp add: RingBuffer_new_def)
  have g: "getAll ?rb = ?ys" using rel by (rule getAll_rel)
  have l: "length ?ys = min (length xs) C" by auto
  have sz: "len ?rb = length ?ys" using rel by (simp add: rb_rel_def len_def)
  have full: "isFull ?rb \<longleftrightarrow> C \<le> length xs"
    using False by (simp add: isFull_push_all)
  have capC: "capacity ?rb = C"
    by (simp add: capacity_push_all RingBuffer_new_def)
  have p1: "fst (push x ?rb) = Some (hd (getAll ?rb))" if "isFull ?rb"
    using push_full[OF rel, of x] that sz capC g by (simp add: isFull_def len_def)
  have p2: "fst (push x ?rb) = None" if "\<not> isFull ?rb"
  proof -
    from that rel have "length ?ys < capacity ?rb"
      unfolding isFull_def rb_rel_def by linarith
    then show ?thesis using push_not_full[OF rel, of x] by simp
  qed
  show ?thesis using False g l sz p1 p2 full by simp
qed

theorem ring_buffer_keeps_last_pushes_witness:
  "getAll (push_all [1, 2, 3, 4, 5 :: nat] (RingBuffer_new 3)) = [3, 4, 5] \<and>
   fst (push 6 (push_all [1, 2, 3, 4, 5 :: nat] (RingBuffer_new 3))) = Some 3 \<and>
   fst (push 3 (push_all [1, 2 :: nat] (RingBuffer_new 3))) = None \<and>
   getAll (push_all [1, 2 :: nat] (RingBuffer_new 0)) = [] \<and>
   fst (push 3 (push_all [1, 2 :: nat] (RingBuffer_new 0))) = Some 3"
  using ring_buffer_keeps_last_pushes[of "[1, 2, 3, 4, 5 :: nat]" 3 6]
        ring_buffer_keeps_last_pushes[of "[1, 2 :: nat]" 3 3]
        ring_buffer_keeps_last_pushes[of "[1, 2 :: nat]" 0 3]
  by simp

section \<open>The topic table and the invariants\<close>

lemma getTopic_Some_iff:
  "getTopic mq i = Some t \<longleftrightarrow> 0 \<le> i \<and> nat i < length (topics mq) \<and> topics mq ! nat i = t"
  by (auto simp: getTopic_def)

lemma getTopic_None_iff:
  "getTopic mq i = None \<longleftrightarrow> i < 0 \<or> length (topics mq) \<le> nat i"
  by (auto simp: getTopic_def)

lemma getTopic_setTopic_same:
  "getTopic mq i = Some t \<Longrightarrow> getTopic (setTopic mq i t') i = Some t'"
  by (auto simp: getTopic_def setTopic_def split: if_splits)

lemma getTopic_setTopic_other:
  "0 \<le> i \<Longrightarrow> j \<noteq> i \<Longrightarrow> getTopic (setTopic mq i t') j = getTopic mq j"
  by (auto simp: getTopic_def setTopic_def)

lemma setTopic_same:
  "getTopic mq i = Some t \<Longrightarrow> setTopic mq i t = mq"
  by (auto simp: getTopic_def setTopic_def split: if_splits)

lemma setTopic_fields [simp]:
  "topicIndex (setTopic mq i t) = topicIndex mq"
  "channel (setTopic mq i t) = channel mq"
  "clientId (setTopic mq i t) = clientId mq"
  "seenIds (setTopic mq i t) = seenIds mq"
  "isClosed (setTopic mq i t) = isClosed mq"
  "length (topics (setTopic mq i t)) = length (topics mq)"
  by (simp_all add: setTopic_def)

lemma queue_inv_setTopic:
  assumes "queue_inv mq" "getTopic mq i = Some t" "subs_ok t'" "name t' = name t"
  shows "queue_inv (setTopic mq i t')"
proof -
  from assms(2) have i: "0 \<le> i" "nat i < length (topics mq)" "topics mq ! nat i = t"
    by (simp_all add: getTopic_Some_iff)
  have "index_ok (setTopic mq i t')"
    unfolding index_ok_def
  proof (intro allI impI)
    fix nm j assume "topicIndex (setTopic mq i t') nm = Some j"
    then have "topicIndex mq nm = Some j" by simp
    with assms(1) obtain u where u: "getTopic mq j = Some u" "name u = nm"
      by (auto simp: queue_inv_def index_ok_def)
    show "\<exists>t. getTopic (setTopic mq i t') j = Some t \<and> name t = nm"
    proof (cases "j = i")
      case True
      with u assms(2,4) show ?thesis by (simp add: getTopic_setTopic_same)
    next
      case False
      with u i(1) show ?thesis by (simp add: getTopic_setTopic_other)
    qed
  qed
  moreover have "list_all subs_ok (topics (setTopic mq i t'))"
    using assms(1,3) by (auto simp: queue_inv_def setTopic_def list_all_iff dest: set_update_subset_insert[THEN subsetD])
  ultimately show ?thesis by (simp add: queue_inv_def)
qed

lemma getTopic_seenIds [simp]: "getTopic (mq\<lparr>seenIds := S\<rparr>) i = getTopic mq i"
  by (simp add: getTopic_def)

lemma queue_inv_seenIds:
  "queue_inv mq \<Longrightarrow> queue_inv (mq\<lparr>seenIds := S\<rparr>)"
  by (simp add: queue_inv_def index_ok_def)

lemma queue_inv_new: "queue_inv (MessageQueue_new u ch bc)"
  by (simp add: queue_inv_def index_ok_def MessageQueue_new_def)

lemma queue_inv_registerTopic:
  assumes "queue_inv mq"
  shows "queue_inv (snd (registerTopic mq nm))"
proof (cases "topicIndex mq nm")
  case (Some i)
  then show ?thesis using assms by (simp add: registerTopic_def)
next
  case None
  let ?i = "int (length (topics mq))"
  let ?t = "\<lparr>id_topic = ?i, name = nm, subscribers = [], buffer_topic = None, nextSubId = 0\<rparr> :: ('a, 'b) TopicState"
  let ?mq = "mq\<lparr>topics := topics mq @ [?t], topicIndex := (topicIndex mq)(nm \<mapsto> ?i)\<rparr>"
  have eq: "snd (registerTopic mq nm) = ?mq" using None by (simp add: registerTopic_def Let_def)
  have "index_ok ?mq"
    unfolding index_ok_def
  proof (intro allI impI)
    fix n j assume a: "topicIndex ?mq n = Some j"
    show "\<exists>t. getTopic ?mq j = Some t \<and> name t = n"
    proof (cases "n = nm")
      case True
      with a have "j = ?i" by simp
      then show ?thesis using True by (simp add: getTopic_def)
    next
      case False
      with a have "topicIndex mq n = Some j" by simp
      with assms obtain u where "getTopic mq j = Some u" "name u = n"
        by (auto simp: queue_inv_def index_ok_def)
      then show ?thesis by (auto simp: getTopic_def nth_append split: if_splits)
    qed
  qed
  moreover have "list_all subs_ok (topics ?mq)"
    using assms by (simp add: queue_inv_def subs_ok_def)
  ultimately show ?thesis unfolding eq by (simp add: queue_inv_def)
qed

lemma subs_ok_Map_set:
  assumes "subs_ok t"
  shows "Map_set (subscribers t) (nextSubId t) cb = subscribers t @ [(nextSubId t, cb)]"
    and "subs_ok (t\<lparr>nextSubId := nextSubId t + 1,
                    subscribers := subscribers t @ [(nextSubId t, cb)]\<rparr>)"
proof -
  from assms have lt: "\<forall>k \<in> set (map fst (subscribers t)). k < nextSubId t"
    and srt: "sorted_wrt (<) (map fst (subscribers t))"
    by (simp_all add: subs_ok_def list_all_iff)
  from lt have "nextSubId t \<notin> fst ` set (subscribers t)" by auto
  then show "Map_set (subscribers t) (nextSubId t) cb = subscribers t @ [(nextSubId t, cb)]"
    by (simp add: Map_set_def)
  show "subs_ok (t\<lparr>nextSubId := nextSubId t + 1,
                    subscribers := subscribers t @ [(nextSubId t, cb)]\<rparr>)"
    using lt srt by (auto simp: subs_ok_def list_all_iff sorted_wrt_append less_Suc_eq)
qed

lemma subscribe_Some:
  assumes "getTopic mq i = Some t" "subs_ok t"
  shows "subscribe mq i cb =
           Inr (nextSubId t,
                setTopic mq i (t\<lparr>nextSubId := nextSubId t + 1,
                                  subscribers := subscribers t @ [(nextSubId t, cb)]\<rparr>))"
  using assms subs_ok_Map_set(1)[OF assms(2), of cb]
  by (simp add: subscribe_def Let_def)

lemma subs_ok_filter:
  "subs_ok t \<Longrightarrow> subs_ok (t\<lparr>subscribers := filter P (subscribers t)\<rparr>)"
  by (auto simp: subs_ok_def list_all_iff sorted_wrt_map sorted_wrt_filter)

lemma subs_ok_empty: "subs_ok (t\<lparr>subscribers := []\<rparr>)"
  by (simp add: subs_ok_def)

lemma subs_ok_buffer: "subs_ok t \<Longrightarrow> subs_ok (t\<lparr>buffer_topic := b\<rparr>)"
  by (simp add: subs_ok_def)

lemma queue_inv_topic:
  "queue_inv mq \<Longrightarrow> getTopic mq i = Some t \<Longrightarrow> subs_ok t"
  by (auto simp: queue_inv_def getTopic_Some_iff list_all_length)

lemma queue_inv_subscribe:
  assumes "queue_inv mq" "subscribe mq i cb = Inr (k, mq')"
  shows "queue_inv mq'"
proof (cases "getTopic mq i")
  case None
  with assms(2) show ?thesis by (simp add: subscribe_def)
next
  case (Some t)
  have ok: "subs_ok t" using assms(1) Some by (rule queue_inv_topic)
  from assms(2) have "mq' = setTopic mq i (t\<lparr>nextSubId := nextSubId t + 1,
                                  subscribers := subscribers t @ [(nextSubId t, cb)]\<rparr>)"
    by (auto simp: subscribe_Some[OF Some ok])
  then show ?thesis
    using queue_inv_setTopic[OF assms(1) Some subs_ok_Map_set(2)[OF ok, of cb]] by simp
qed

lemma queue_inv_unsubscribe: "queue_inv mq \<Longrightarrow> queue_inv (snd (unsubscribe mq i k))"
  by (auto simp: unsubscribe_def Map_delete_def split: option.splits
           intro!: queue_inv_setTopic subs_ok_filter dest: queue_inv_topic)

lemma queue_inv_unsubscribeAll: "queue_inv mq \<Longrightarrow> queue_inv (snd (unsubscribeAll mq i))"
  by (auto simp: unsubscribeAll_def split: option.splits
           intro!: queue_inv_setTopic subs_ok_empty)

lemma queue_inv_enableTopicBuffer: "queue_inv mq \<Longrightarrow> queue_inv (enableTopicBuffer mq i c)"
  by (auto simp: enableTopicBuffer_def split: option.splits
           intro!: queue_inv_setTopic subs_ok_buffer dest: queue_inv_topic)

lemma queue_inv_disableTopicBuffer: "queue_inv mq \<Longrightarrow> queue_inv (disableTopicBuffer mq i)"
  by (auto simp: disableTopicBuffer_def split: option.splits
           intro!: queue_inv_setTopic subs_ok_buffer dest: queue_inv_topic)

lemma queue_inv_clearBuffer: "queue_inv mq \<Longrightarrow> queue_inv (snd (clearBuffer mq i))"
  by (auto simp: clearBuffer_def split: option.splits prod.splits
           intro!: queue_inv_setTopic subs_ok_buffer dest: queue_inv_topic)

lemma queue_inv_destroyTopic: "queue_inv mq \<Longrightarrow> queue_inv (snd (destroyTopic mq i))"
  by (auto simp: destroyTopic_def split: option.splits
           intro!: queue_inv_setTopic subs_ok_buffer subs_ok_empty)

lemma queue_inv_close: "queue_inv (snd (close mq))"
  by (simp add: close_def queue_inv_def index_ok_def Let_def split: option.splits)

lemma queue_inv_dispatchLocal:
  "queue_inv mq \<Longrightarrow> queue_inv (snd (dispatchLocal throws mq msg))"
  by (auto simp: dispatchLocal_def Let_def split: option.splits
           intro!: queue_inv_setTopic queue_inv_seenIds subs_ok_buffer
           dest: queue_inv_topic)

lemma queue_inv_publish:
  "queue_inv mq \<Longrightarrow> queue_inv (snd (publish throws mq i p u n))"
  using queue_inv_dispatchLocal[of mq throws "createMessage mq i p u n"]
  by (auto simp: publish_def Let_def split: prod.splits)

lemma queue_inv_publishBatchById:
  "queue_inv mq \<Longrightarrow> queue_inv (snd (publishBatchById throws mq i ps))"
proof (induction ps arbitrary: mq)
  case Nil
  then show ?case by simp
next
  case (Cons a ps)
  obtain p u n where a: "a = (p, u, n)" by (cases a) auto
  from Cons.prems have "queue_inv (snd (publish throws mq i p u n))" by (rule queue_inv_publish)
  from Cons.IH[OF this] show ?case by (auto simp: a split: prod.splits)
qed

lemma queue_inv_handleChannelMessage:
  assumes "queue_inv mq"
  shows "queue_inv (snd (handleChannelMessage throws mq d))"
proof (cases d)
  case NonArray
  then show ?thesis using assms by (simp add: handleChannelMessage_def)
next
  case (Tagged k w)
  let ?mq1 = "mq\<lparr>seenIds := insert (id_msg w) (seenIds mq)\<rparr>"
  have 1: "queue_inv ?mq1" using assms by (rule queue_inv_seenIds)
  obtain i mq2 where r: "registerTopic ?mq1 (topic_name w) = (i, mq2)"
    by (cases "registerTopic ?mq1 (topic_name w)") auto
  have 2: "queue_inv mq2"
    using queue_inv_registerTopic[OF 1, of "topic_name w"] r by simp
  have 3: "queue_inv (snd (dispatchLocal throws mq2 m))" for m
    using 2 by (rule queue_inv_dispatchLocal)
  show ?thesis
    using assms 1 3 Tagged r
    by (simp add: handleChannelMessage_def Let_def)
qed

lemma queue_inv_api:
  assumes "queue_inv mq"
  shows "queue_inv (snd (snd (api throws mq c)))"
proof (cases c)
  case (RegisterTopic nm)
  then show ?thesis using queue_inv_registerTopic[OF assms, of nm] by (auto split: prod.splits)
next
  case (Subscribe i cb)
  then show ?thesis using assms queue_inv_subscribe[OF assms, of i cb]
    by (auto split: sum.splits)
next
  case (Unsubscribe i k)
  then show ?thesis using queue_inv_unsubscribe[OF assms, of i k] by (auto split: prod.splits)
next
  case (UnsubscribeAll i)
  then show ?thesis using queue_inv_unsubscribeAll[OF assms, of i] by (auto split: prod.splits)
next
  case (Publish i p u n)
  then show ?thesis using queue_inv_publish[OF assms, of throws i p u n] by (auto split: prod.splits)
next
  case (PublishBatchById i ps)
  then show ?thesis using queue_inv_publishBatchById[OF assms, of throws i ps]
    by (auto split: prod.splits)
next
  case (EnableTopicBuffer i cap)
  then show ?thesis using queue_inv_enableTopicBuffer[OF assms] by simp
next
  case (DisableTopicBuffer i)
  then show ?thesis using queue_inv_disableTopicBuffer[OF assms] by simp
next
  case (ClearBuffer i)
  then show ?thesis using queue_inv_clearBuffer[OF assms, of i] by (auto split: prod.splits)
next
  case (DestroyTopic i)
  then show ?thesis using queue_inv_destroyTopic[OF assms, of i] by (auto split: prod.splits)
next
  case Close
  then show ?thesis using queue_inv_close[of mq] by (auto split: prod.splits)
next
  case (ChannelMessage d)
  then show ?thesis using queue_inv_handleChannelMessage[OF assms, of throws d]
    by (auto split: prod.splits)
qed

lemma queue_inv_run:
  "queue_inv mq \<Longrightarrow> queue_inv (run throws mq cs)"
  by (induction cs arbitrary: mq) (simp_all add: queue_inv_api)

section \<open>Dispatch and publish\<close>

lemma invocations_notify:
  "invocations (notify throws subs msg) =
     map (\<lambda>(subId, cb). (subId, cb, payload msg, topic_id msg, timestamp msg, id_msg msg)) subs"
  by (induction subs) auto

lemma posted_notify: "posted (notify throws subs msg) = []"
  by (induction subs) auto

lemma invocations_append: "invocations (xs @ ys) = invocations xs @ invocations ys"
  by (induction xs rule: invocations.induct) simp_all

lemma posted_append: "posted (xs @ ys) = posted xs @ posted ys"
  by (induction xs rule: posted.induct) simp_all

lemma invocations_broadcast: "invocations (broadcast mq msg) = []"
  by (simp add: broadcast_def split: option.splits)

lemma dispatchLocal_closed: "isClosed mq \<Longrightarrow> dispatchLocal throws mq msg = ([], mq)"
  by (simp add: dispatchLocal_def)

lemma dispatchLocal_unknown:
  "\<not> isClosed mq \<Longrightarrow> getTopic mq (topic_id msg) = None \<Longrightarrow>
   dispatchLocal throws mq msg = ([], mq\<lparr>seenIds := insert (id_msg msg) (seenIds mq)\<rparr>)"
  by (simp add: dispatchLocal_def Let_def)

lemma dispatchLocal_known:
  "\<not> isClosed mq \<Longrightarrow> getTopic mq (topic_id msg) = Some t \<Longrightarrow>
   fst (dispatchLocal throws mq msg) = notify throws (subscribers t) msg"
  by (simp add: dispatchLocal_def Let_def split: option.splits)

lemma publish_invocations:
  assumes "\<not> isClosed mq" "getTopic mq topicId = Some t"
  shows "invocations (fst (publish throws mq topicId p uuid now)) =
           map (\<lambda>(subId, cb). (subId, cb, p, topicId, now, uuid)) (subscribers t)"
  using dispatchLocal_known[of mq "createMessage mq topicId p uuid now" t throws] assms
  by (auto simp: publish_def Let_def createMessage_def invocations_append invocations_broadcast
        invocations_notify split: prod.splits)

lemma broadcast_unknown: "getTopic mq (topic_id msg) = None \<Longrightarrow> broadcast mq msg = []"
  by (simp add: broadcast_def)

lemma publish_closed: "isClosed mq \<Longrightarrow> publish throws mq topicId p uuid now = ([], mq)"
  by (simp add: publish_def dispatchLocal_def broadcast_def Let_def)

lemma publish_unknown:
  assumes "getTopic mq topicId = None" "\<not> isClosed mq"
  shows "publish throws mq topicId p uuid now = ([], mq\<lparr>seenIds := insert uuid (seenIds mq)\<rparr>)"
proof -
  let ?msg = "createMessage mq topicId p uuid now"
  have t: "topic_id ?msg = topicId" and i: "id_msg ?msg = uuid" by (simp_all add: createMessage_def)
  have d: "dispatchLocal throws mq ?msg = ([], mq\<lparr>seenIds := insert uuid (seenIds mq)\<rparr>)"
    using dispatchLocal_unknown[of mq ?msg throws] assms t i by simp
  have b: "broadcast (mq\<lparr>seenIds := insert uuid (seenIds mq)\<rparr>) ?msg = []"
    by (rule broadcast_unknown) (simp add: t assms(1))
  show ?thesis by (simp add: publish_def Let_def d b)
qed

text \<open>
  C1 (amended). For every topic id that is not registered on the instance, \<open>publish\<close> returns
  normally: it raises no error. No subscriber callback is invoked, nothing is handed to the
  broadcast channel, and the topic table with its ring buffers is unchanged. The one change
  to the instance is that, unless the instance is closed, the id of the new message is added
  to the seen-set.
\<close>

theorem publish_unregistered_topic:
  assumes "getTopic mq topicId = None"
  shows "api throws mq (Publish topicId p uuid now) =
           (Returned_void, [],
            if isClosed mq then mq else mq\<lparr>seenIds := insert uuid (seenIds mq)\<rparr>)"
  using assms by (simp add: publish_closed publish_unknown)

text \<open>The theorem at a concrete instance.\<close>

theorem publish_unregistered_topic_witness:
  "getTopic example_queue 3 = None \<and>
   api never_throws example_queue (Publish 3 7 ''m1'' 1000) =
     (Returned_void, [], example_queue\<lparr>seenIds := {''m1''}\<rparr>)"
proof -
  have h: "getTopic example_queue 3 = None"
    by (simp add: getTopic_def example_queue_def MessageQueue_new_def)
  have c: "\<not> isClosed example_queue" "seenIds example_queue = {}"
    by (simp_all add: example_queue_def MessageQueue_new_def)
  show ?thesis
    using h c publish_unregistered_topic[OF h, of never_throws 7 "''m1''" 1000] by simp
qed

text \<open>
  The claim as first stated fails on a new instance: \<open>publish\<close> to the unregistered id 3
  returns instead of raising \<open>TopicNotFound\<close>, and the seen-set changes from empty to
  \<open>{''m1''}\<close>.
\<close>

theorem publish_unregistered_counterexample:
  "fst (api never_throws example_queue (Publish 3 7 ''m1'' 1000)) = Returned_void \<and>
   fst (api never_throws example_queue (Publish 3 7 ''m1'' 1000)) \<noteq> Raised (TopicNotFound 3) \<and>
   seenIds example_queue = {} \<and>
   seenIds (snd (snd (api never_throws example_queue (Publish 3 7 ''m1'' 1000)))) = {''m1''}"
  by (simp add: example_queue_def MessageQueue_new_def publish_def dispatchLocal_def
        broadcast_def createMessage_def getTopic_def Let_def)

section \<open>Unknown ids\<close>

lemma Map_delete_absent:
  "k \<notin> fst ` set m \<Longrightarrow> Map_delete m k = (False, m)"
proof -
  assume a: "k \<notin> fst ` set m"
  then have "filter (\<lambda>(k', v'). k' \<noteq> k) m = m"
    by (intro filter_True) force
  with a show ?thesis by (simp add: Map_delete_def)
qed

text \<open>
  C8. For every unknown topic id, \<open>unsubscribe\<close> and \<open>destroyTopic\<close> return false,
  \<open>unsubscribeAll\<close>, \<open>clearBuffer\<close>, \<open>getBufferSize\<close> and \<open>getBufferCapacity\<close> return 0 and
  \<open>getBufferedMessages\<close> returns the empty sequence; none of them raises and the instance is
  unchanged. Likewise \<open>unsubscribe\<close> with a subscription id that the known topic does not have
  returns false and leaves the instance unchanged.
\<close>

theorem unknown_ids_are_noops:
  "(getTopic mq topicId = None \<longrightarrow>
      unsubscribe mq topicId subId = (False, mq) \<and>
      destroyTopic mq topicId = (False, mq) \<and>
      unsubscribeAll mq topicId = (0, mq) \<and>
      clearBuffer mq topicId = (0, mq) \<and>
      getBufferSize mq topicId = 0 \<and>
      getBufferCapacity mq topicId = 0 \<and>
      getBufferedMessages mq topicId = [] \<and>
      api throws mq (Unsubscribe topicId subId) = (Returned_bool False, [], mq) \<and>
      api throws mq (DestroyTopic topicId) = (Returned_bool False, [], mq) \<and>
      api throws mq (UnsubscribeAll topicId) = (Returned_number 0, [], mq) \<and>
      api throws mq (ClearBuffer topicId) = (Returned_number 0, [], mq)) \<and>
   (getTopic mq topicId = Some t \<and> subId \<notin> fst ` set (subscribers t) \<longrightarrow>
      unsubscribe mq topicId subId = (False, mq) \<and>
      api throws mq (Unsubscribe topicId subId) = (Returned_bool False, [], mq))"
proof (intro conjI impI)
  assume a: "getTopic mq topicId = Some t \<and> subId \<notin> fst ` set (subscribers t)"
  then have d: "Map_delete (subscribers t) subId = (False, subscribers t)"
    by (simp add: Map_delete_absent)
  from a have s: "setTopic mq topicId t = mq" by (simp add: setTopic_same)
  show u: "unsubscribe mq topicId subId = (False, mq)"
    using a d s by (simp add: unsubscribe_def)
  show "api throws mq (Unsubscribe topicId subId) = (Returned_bool False, [], mq)"
    using u by simp
qed (simp_all add: unsubscribe_def destroyTopic_def unsubscribeAll_def clearBuffer_def
      getBufferSize_def getBufferCapacity_def getBufferedMessages_def)

lemma one_topic_topics:
  "topics one_topic =
     [\<lparr>id_topic = 0, name = ''news'', subscribers = [(0, 10), (1, 11)],
       buffer_topic = Some \<lparr>buffer = [Some \<lparr>id_msg = ''m1'', topic_id = 0, origin_id = ''client-A'',
                                             payload = 7, timestamp = 1000\<rparr>, None],
                             capacity = 2, size_rb = 1, front = 0, rear = 1\<rparr>,
       nextSubId = 2\<rparr>]"
  by code_simp

lemma one_topic_fields:
  "isClosed one_topic = False" "seenIds one_topic = {''m1''}" "channel one_topic = Some ''tabs''"
  "clientId one_topic = ''client-A''"
  by code_simp+

lemma one_topic_getTopic:
  "getTopic one_topic 0 = Some (topics one_topic ! 0)" "getTopic one_topic 5 = None"
  by (simp_all add: getTopic_def one_topic_topics)

text \<open>The theorem at a concrete instance.\<close>

theorem unknown_ids_are_noops_witness:
  "getTopic one_topic 5 = None \<and>
   unsubscribe one_topic 5 0 = (False, one_topic) \<and>
   destroyTopic one_topic 5 = (False, one_topic) \<and>
   unsubscribeAll one_topic 5 = (0, one_topic) \<and>
   clearBuffer one_topic 5 = (0, one_topic) \<and>
   getBufferSize one_topic 5 = 0 \<and>
   getBufferCapacity one_topic 5 = 0 \<and>
   getBufferedMessages one_topic 5 = [] \<and>
   getTopic one_topic 0 = Some (topics one_topic ! 0) \<and>
   9 \<notin> fst ` set (subscribers (topics one_topic ! 0)) \<and>
   unsubscribe one_topic 0 9 = (False, one_topic)"
proof -
  have n: "9 \<notin> fst ` set (subscribers (topics one_topic ! 0))"
    by (simp add: one_topic_topics)
  show ?thesis
    using unknown_ids_are_noops[of one_topic 5 0 never_throws "topics one_topic ! 0"]
          unknown_ids_are_noops[of one_topic 0 9 never_throws "topics one_topic ! 0"]
          one_topic_getTopic n
    by simp
qed

text \<open>
  C9. \<open>destroyTopic\<close> on a registered topic is a soft delete: it returns true, the topic's
  subscribers are cleared and its buffer is discarded, the slot keeps its id, name and
  subscription counter, the name index is unchanged (so registering the name again gives the
  same id), and every other topic and every other field of the instance is unchanged. For an
  id out of range it returns false and changes nothing.
\<close>

theorem destroyTopic_soft_delete:
  "(getTopic mq topicId = Some t \<longrightarrow>
      fst (destroyTopic mq topicId) = True \<and>
      getTopic (snd (destroyTopic mq topicId)) topicId =
        Some (t\<lparr>subscribers := [], buffer_topic := None\<rparr>) \<and>
      subscriberCount (snd (destroyTopic mq topicId)) topicId = 0 \<and>
      hasBuffer (snd (destroyTopic mq topicId)) topicId = False \<and>
      topicIndex (snd (destroyTopic mq topicId)) = topicIndex mq \<and>
      fst (registerTopic (snd (destroyTopic mq topicId)) nm) = fst (registerTopic mq nm) \<and>
      length (topics (snd (destroyTopic mq topicId))) = length (topics mq) \<and>
      (\<forall>j. j \<noteq> topicId \<longrightarrow> getTopic (snd (destroyTopic mq topicId)) j = getTopic mq j) \<and>
      seenIds (snd (destroyTopic mq topicId)) = seenIds mq \<and>
      channel (snd (destroyTopic mq topicId)) = channel mq \<and>
      clientId (snd (destroyTopic mq topicId)) = clientId mq \<and>
      isClosed (snd (destroyTopic mq topicId)) = isClosed mq) \<and>
   (getTopic mq topicId = None \<longrightarrow> destroyTopic mq topicId = (False, mq))"
proof (intro conjI impI)
  assume a: "getTopic mq topicId = Some t"
  let ?t = "t\<lparr>subscribers := [], buffer_topic := None\<rparr>"
  have eq: "destroyTopic mq topicId = (True, setTopic mq topicId ?t)"
    using a by (simp add: destroyTopic_def Let_def)
  from a have nn: "0 \<le> topicId" by (simp add: getTopic_Some_iff)
  show "fst (destroyTopic mq topicId) = True" by (simp add: eq)
  show g: "getTopic (snd (destroyTopic mq topicId)) topicId = Some ?t"
    using a by (simp add: eq getTopic_setTopic_same)
  show "subscriberCount (snd (destroyTopic mq topicId)) topicId = 0"
    by (simp add: subscriberCount_def g)
  show "hasBuffer (snd (destroyTopic mq topicId)) topicId = False"
    by (simp add: hasBuffer_def g)
  show "topicIndex (snd (destroyTopic mq topicId)) = topicIndex mq" by (simp add: eq)
  show "fst (registerTopic (snd (destroyTopic mq topicId)) nm) = fst (registerTopic mq nm)"
    by (simp add: eq registerTopic_def Let_def split: option.splits)
  show "length (topics (snd (destroyTopic mq topicId))) = length (topics mq)" by (simp add: eq)
  show "\<forall>j. j \<noteq> topicId \<longrightarrow> getTopic (snd (destroyTopic mq topicId)) j = getTopic mq j"
    using nn by (simp add: eq getTopic_setTopic_other)
  show "seenIds (snd (destroyTopic mq topicId)) = seenIds mq" by (simp add: eq)
  show "channel (snd (destroyTopic mq topicId)) = channel mq" by (simp add: eq)
  show "clientId (snd (destroyTopic mq topicId)) = clientId mq" by (simp add: eq)
  show "isClosed (snd (destroyTopic mq topicId)) = isClosed mq" by (simp add: eq)
next
  assume "getTopic mq topicId = None"
  then show "destroyTopic mq topicId = (False, mq)" by (simp add: destroyTopic_def)
qed

lemma two_topics_len: "length (topics two_topics) = 2"
  by code_simp

lemma two_topics_getTopic:
  "getTopic two_topics 0 = Some (topics two_topics ! 0)"
  "getTopic two_topics 1 = Some (topics two_topics ! 1)"
  "getTopic two_topics 2 = None"
  by (simp_all add: getTopic_def two_topics_len)

lemma two_topics_facts:
  "subscriberCount two_topics 0 = 1" "hasBuffer two_topics 0 = True"
  "getBufferedMessages two_topics 0 = [7]"
  "getBufferedMessages two_topics 1 = [8]"
  "subscriberCount two_topics 1 = 1"
  "fst (registerTopic two_topics ''news'') = 0"
  by code_simp+

text \<open>The theorem at a concrete instance.\<close>

theorem destroyTopic_soft_delete_witness:
  "getTopic two_topics 0 = Some (topics two_topics ! 0) \<and>
   subscriberCount two_topics 0 = 1 \<and> hasBuffer two_topics 0 = True \<and>
   fst (destroyTopic two_topics 0) = True \<and>
   subscriberCount (snd (destroyTopic two_topics 0)) 0 = 0 \<and>
   hasBuffer (snd (destroyTopic two_topics 0)) 0 = False \<and>
   fst (registerTopic (snd (destroyTopic two_topics 0)) ''news'') = 0 \<and>
   getTopic (snd (destroyTopic two_topics 0)) 1 = Some (topics two_topics ! 1) \<and>
   getTopic two_topics 2 = None \<and>
   destroyTopic two_topics 2 = (False, two_topics)"
  using destroyTopic_soft_delete[of two_topics 0 "topics two_topics ! 0" "''news''"]
        destroyTopic_soft_delete[of two_topics 2 "topics two_topics ! 0" "''news''"]
        two_topics_getTopic two_topics_facts
  by simp

text \<open>
  C10. For every registered topic, \<open>enableTopicBuffer\<close> with any capacity (100 when none is
  given) installs a fresh empty ring buffer of that capacity in place of whatever buffer the
  topic had: the buffered messages are gone and the buffer size is 0 right afterwards.
\<close>

theorem enableTopicBuffer_replaces_buffer:
  assumes "getTopic mq topicId = Some t"
  shows "getTopic (enableTopicBuffer mq topicId cap) topicId =
           Some (t\<lparr>buffer_topic := Some (RingBuffer_new (case cap of None \<Rightarrow> 100 | Some c \<Rightarrow> c))\<rparr>) \<and>
         getBufferSize (enableTopicBuffer mq topicId cap) topicId = 0 \<and>
         getBufferedMessages (enableTopicBuffer mq topicId cap) topicId = [] \<and>
         getBufferCapacity (enableTopicBuffer mq topicId cap) topicId =
           (case cap of None \<Rightarrow> 100 | Some c \<Rightarrow> c) \<and>
         hasBuffer (enableTopicBuffer mq topicId cap) topicId = True"
proof -
  let ?c = "case cap of None \<Rightarrow> 100 | Some c \<Rightarrow> c"
  let ?t = "t\<lparr>buffer_topic := Some (RingBuffer_new ?c)\<rparr>"
  have eq: "enableTopicBuffer mq topicId cap = setTopic mq topicId ?t"
    using assms by (simp add: enableTopicBuffer_def Let_def)
  have g: "getTopic (enableTopicBuffer mq topicId cap) topicId = Some ?t"
    using assms by (simp add: eq getTopic_setTopic_same)
  show ?thesis
    by (simp add: g getBufferSize_def getBufferedMessages_def getBufferCapacity_def hasBuffer_def
          len_def getCapacity_def getAll_def isEmpty_def RingBuffer_new_def)
qed

text \<open>The theorem at a concrete instance.\<close>

theorem enableTopicBuffer_replaces_buffer_witness:
  "getTopic two_topics 0 = Some (topics two_topics ! 0) \<and>
   getBufferedMessages two_topics 0 = [7] \<and>
   getBufferSize (enableTopicBuffer two_topics 0 (Some 5)) 0 = 0 \<and>
   getBufferedMessages (enableTopicBuffer two_topics 0 (Some 5)) 0 = [] \<and>
   getBufferCapacity (enableTopicBuffer two_topics 0 (Some 5)) 0 = 5 \<and>
   getBufferSize (enableTopicBuffer two_topics 1 None) 1 = 0 \<and>
   getBufferCapacity (enableTopicBuffer two_topics 1 None) 1 = 100"
  using enableTopicBuffer_replaces_buffer[OF two_topics_getTopic(1), of "Some 5"]
        enableTopicBuffer_replaces_buffer[OF two_topics_getTopic(2), of None]
        two_topics_getTopic two_topics_facts
  by simp

section \<open>Callbacks that throw\<close>

lemma publish_closed_or_notify:
  assumes "getTopic mq topicId = Some t"
  shows "fst (publish throws mq topicId p uuid now) =
           (if isClosed mq then []
            else notify throws (subscribers t) (createMessage mq topicId p uuid now)
                 @ broadcast (snd (dispatchLocal throws mq (createMessage mq topicId p uuid now)))
                     (createMessage mq topicId p uuid now))"
proof (cases "isClosed mq")
  case True
  then show ?thesis by (simp add: publish_closed)
next
  case False
  have "topic_id (createMessage mq topicId p uuid now) = topicId" by (simp add: createMessage_def)
  with False assms show ?thesis
    using dispatchLocal_known[of mq "createMessage mq topicId p uuid now" t throws]
    by (cases "dispatchLocal throws mq (createMessage mq topicId p uuid now)")
       (simp add: publish_def Let_def)
qed

lemma dispatchLocal_known_state:
  "\<not> isClosed mq \<Longrightarrow> getTopic mq (topic_id msg) = Some t \<Longrightarrow>
   snd (dispatchLocal throws mq msg) =
     setTopic (mq\<lparr>seenIds := insert (id_msg msg) (seenIds mq)\<rparr>) (topic_id msg)
       (case buffer_topic t of
          None \<Rightarrow> t
        | Some rb \<Rightarrow> t\<lparr>buffer_topic := Some (snd (push msg rb))\<rparr>)"
  by (simp add: dispatchLocal_def Let_def split: option.splits)

lemma publish_effects:
  assumes "\<not> isClosed mq" "getTopic mq topicId = Some t"
  shows "fst (publish throws mq topicId p uuid now) =
           notify throws (subscribers t) (createMessage mq topicId p uuid now)
           @ (if channel mq \<noteq> None
              then [PostMessage 0 \<lparr>id_msg = uuid, topic_id = topicId, origin_id = clientId mq,
                                    payload = p, timestamp = now, topic_name = name t\<rparr>]
              else [])"
proof -
  let ?msg = "createMessage mq topicId p uuid now"
  let ?t1 = "case buffer_topic t of
               None \<Rightarrow> t
             | Some rb \<Rightarrow> t\<lparr>buffer_topic := Some (snd (push ?msg rb))\<rparr>"
  let ?mq1 = "snd (dispatchLocal throws mq ?msg)"
  have tid: "topic_id ?msg = topicId" by (simp add: createMessage_def)
  have st: "?mq1 = setTopic (mq\<lparr>seenIds := insert (id_msg ?msg) (seenIds mq)\<rparr>) topicId ?t1"
    using dispatchLocal_known_state[of mq ?msg t throws] assms tid by simp
  have g: "getTopic ?mq1 topicId = Some ?t1"
    unfolding st using assms(2) by (intro getTopic_setTopic_same[of _ _ t]) simp
  have nm: "name ?t1 = name t" by (simp split: option.splits)
  have b: "broadcast ?mq1 ?msg =
             (if channel mq \<noteq> None
              then [PostMessage 0 \<lparr>id_msg = uuid, topic_id = topicId, origin_id = clientId mq,
                                    payload = p, timestamp = now, topic_name = name t\<rparr>]
              else [])"
    using assms(1) g nm
    by (simp add: broadcast_def st tid) (simp add: createMessage_def)
  show ?thesis
    using publish_closed_or_notify[OF assms(2), of throws p uuid now] assms(1) b by simp
qed

lemma ConsoleError_notify:
  "(subId, cb) \<in> set subs \<Longrightarrow>
   throws cb (payload msg) (topic_id msg) (timestamp msg) (id_msg msg) \<Longrightarrow>
   ConsoleError subId \<in> set (notify throws subs msg)"
  by (induction subs) auto

text \<open>
  C4 (amended). On an instance that has not been closed, for every registered topic whose
  subscriber table is \<open>pre @ (subId, cb) # post\<close> with a callback \<open>cb\<close> that raises an error on
  the message, a \<open>publish\<close> invokes every subscriber of the table once and in order, so
  every subscriber of \<open>post\<close> after the raising one as well; the error is caught and logged
  and \<open>publish\<close> itself returns without failing.
\<close>

theorem throwing_callback_is_isolated:
  assumes "\<not> isClosed mq"
      and "getTopic mq topicId = Some t"
      and "subscribers t = pre @ (subId, cb) # post"
      and "throws cb p topicId now uuid"
  shows "fst (api throws mq (Publish topicId p uuid now)) = Returned_void \<and>
         invocations (fst (snd (api throws mq (Publish topicId p uuid now)))) =
           map (\<lambda>(s, c). (s, c, p, topicId, now, uuid)) pre
           @ (subId, cb, p, topicId, now, uuid)
           # map (\<lambda>(s, c). (s, c, p, topicId, now, uuid)) post \<and>
         ConsoleError subId \<in> set (fst (snd (api throws mq (Publish topicId p uuid now))))"
proof -
  have inv: "invocations (fst (publish throws mq topicId p uuid now)) =
               map (\<lambda>(s, c). (s, c, p, topicId, now, uuid)) (subscribers t)"
    using assms(1,2) by (rule publish_invocations)
  let ?msg = "createMessage mq topicId p uuid now"
  have "ConsoleError subId \<in> set (notify throws (subscribers t) ?msg)"
    by (rule ConsoleError_notify[of subId cb]) (simp_all add: assms(3,4) createMessage_def)
  then have ce: "ConsoleError subId \<in> set (fst (publish throws mq topicId p uuid now))"
    using assms(1) by (simp add: publish_closed_or_notify[OF assms(2)])
  show ?thesis using inv ce assms(3) by (simp split: prod.splits)
qed

lemma mixed_topics:
  "topics mixed_subscribers =
     [\<lparr>id_topic = 0, name = ''news'', subscribers = [(0, 10), (1, 11), (2, 12)],
       buffer_topic = None, nextSubId = 3\<rparr>]"
  by code_simp

lemma mixed_fields:
  "isClosed mixed_subscribers = False" "channel mixed_subscribers = Some ''tabs''"
  "clientId mixed_subscribers = ''client-A''"
  by code_simp+

lemma mixed_publish:
  "fst (publish odd_throws mixed_subscribers 0 7 ''m1'' 1000) =
     [Invoke 0 10 7 0 1000 ''m1'', Invoke 1 11 7 0 1000 ''m1'', ConsoleError 1,
      Invoke 2 12 7 0 1000 ''m1'',
      PostMessage 0 \<lparr>id_msg = ''m1'', topic_id = 0, origin_id = ''client-A'', payload = 7,
                      timestamp = 1000, topic_name = ''news''\<rparr>]"
proof -
  have g: "getTopic mixed_subscribers 0 = Some (topics mixed_subscribers ! 0)"
    by (simp add: getTopic_def mixed_topics)
  show ?thesis
    using publish_effects[OF _ g, of odd_throws 7 "''m1''" 1000]
    by (simp add: mixed_fields mixed_topics createMessage_def odd_throws_def)
qed

text \<open>The theorem at a concrete instance.\<close>

theorem throwing_callback_is_isolated_witness:
  "\<not> isClosed mixed_subscribers \<and>
   getTopic mixed_subscribers 0 = Some (topics mixed_subscribers ! 0) \<and>
   subscribers (topics mixed_subscribers ! 0) = [(0, 10)] @ (1, 11) # [(2, 12)] \<and>
   odd_throws 11 7 0 1000 ''m1'' \<and>
   fst (api odd_throws mixed_subscribers (Publish 0 7 ''m1'' 1000)) = Returned_void \<and>
   invocations (fst (snd (api odd_throws mixed_subscribers (Publish 0 7 ''m1'' 1000)))) =
     [(0, 10, 7, 0, 1000, ''m1''), (1, 11, 7, 0, 1000, ''m1''), (2, 12, 7, 0, 1000, ''m1'')] \<and>
   ConsoleError 1 \<in> set (fst (snd (api odd_throws mixed_subscribers (Publish 0 7 ''m1'' 1000))))"
proof -
  have c: "\<not> isClosed mixed_subscribers" by (simp add: mixed_fields)
  have g: "getTopic mixed_subscribers 0 = Some (topics mixed_subscribers ! 0)"
    by (simp add: getTopic_def mixed_topics)
  have s: "subscribers (topics mixed_subscribers ! 0) = [(0, 10)] @ (1, 11) # [(2, 12)]"
    by (simp add: mixed_topics)
  have t: "odd_throws 11 7 0 1000 ''m1''" by (simp add: odd_throws_def)
  note th = throwing_callback_is_isolated[where throws = odd_throws and mq = mixed_subscribers
      and topicId = 0 and p = 7 and uuid = "''m1''" and now = 1000 and subId = 1 and cb = 11
      and pre = "[(0, 10)]" and post = "[(2, 12)]", OF c g s t]
  have r: "fst (api odd_throws mixed_subscribers (Publish 0 7 ''m1'' 1000)) = Returned_void"
    using th by (rule conjunct1)
  have inv: "invocations (fst (snd (api odd_throws mixed_subscribers (Publish 0 7 ''m1'' 1000)))) =
     [(0, 10, 7, 0, 1000, ''m1''), (1, 11, 7, 0, 1000, ''m1''), (2, 12, 7, 0, 1000, ''m1'')]"
    using th[THEN conjunct2, THEN conjunct1] by simp
  have ce: "ConsoleError 1 \<in> set (fst (snd (api odd_throws mixed_subscribers (Publish 0 7 ''m1'' 1000))))"
    using th[THEN conjunct2, THEN conjunct2] .
  from c g s t r inv ce show ?thesis by (intro conjI)
qed

lemma closed_with_thrower_topics:
  "topics closed_with_thrower =
     [\<lparr>id_topic = 0, name = ''news'', subscribers = [(0, 11), (1, 12)],
       buffer_topic = None, nextSubId = 2\<rparr>]"
  by code_simp

lemma closed_with_thrower_closed: "isClosed closed_with_thrower = True"
  by code_simp

text \<open>
  The claim as first stated fails on a closed instance: the topic registered after \<open>close\<close>
  has the subscribers 11, whose callback raises on the message, and 12 after it, and a
  \<open>publish\<close> to it returns without invoking the later subscriber, or any.
\<close>

theorem throwing_callback_counterexample:
  "getTopic closed_with_thrower 0 = Some (topics closed_with_thrower ! 0) \<and>
   subscribers (topics closed_with_thrower ! 0) = [(0, 11), (1, 12)] \<and>
   odd_throws 11 7 0 1000 ''m1'' \<and>
   fst (api odd_throws closed_with_thrower (Publish 0 7 ''m1'' 1000)) = Returned_void \<and>
   invocations (fst (snd (api odd_throws closed_with_thrower (Publish 0 7 ''m1'' 1000)))) = []"
proof -
  have g: "getTopic closed_with_thrower 0 = Some (topics closed_with_thrower ! 0)"
    by (simp add: getTopic_def closed_with_thrower_topics)
  have s: "subscribers (topics closed_with_thrower ! 0) = [(0, 11), (1, 12)]"
    by (simp add: closed_with_thrower_topics)
  have t: "odd_throws 11 7 0 1000 ''m1''" by (simp add: odd_throws_def)
  have p: "publish odd_throws closed_with_thrower 0 7 ''m1'' 1000 = ([], closed_with_thrower)"
    by (rule publish_closed) (simp add: closed_with_thrower_closed)
  have r: "fst (api odd_throws closed_with_thrower (Publish 0 7 ''m1'' 1000)) = Returned_void"
    by (simp add: p)
  have i: "invocations (fst (snd (api odd_throws closed_with_thrower (Publish 0 7 ''m1'' 1000)))) = []"
    by (simp add: p)
  from g s t r i show ?thesis by (intro conjI)
qed

section \<open>Dispatch order\<close>

lemma sorted_wrt_less_distinct: "sorted_wrt (<) (xs :: nat list) \<Longrightarrow> distinct xs"
  by (induction xs) auto

text \<open>
  C3 (amended). On an instance that has not been closed, in any state reached from a new
  instance, one \<open>publish\<close> to a registered topic invokes each subscriber's callback exactly
  once, in the order of the subscriber table, every one with the same arguments
  \<open>(payload, topic_id, timestamp, message_id)\<close>. The table is in registration order: its
  subscription ids are distinct and strictly increasing, all below \<open>nextSubId\<close>, and a further
  \<open>subscribe\<close> gets the id \<open>nextSubId\<close> and is put last.
\<close>

theorem publish_invokes_subscribers_in_order:
  assumes "mq = run throws (MessageQueue_new cid ch bc) cs"
      and "\<not> isClosed mq"
      and "getTopic mq topicId = Some t"
  shows "invocations (fst (publish throws mq topicId p uuid now)) =
           map (\<lambda>(subId, cb). (subId, cb, p, topicId, now, uuid)) (subscribers t) \<and>
         distinct (map fst (subscribers t)) \<and>
         sorted_wrt (<) (map fst (subscribers t)) \<and>
         list_all (\<lambda>k. k < nextSubId t) (map fst (subscribers t)) \<and>
         (\<exists>mq'. subscribe mq topicId cb' = Inr (nextSubId t, mq') \<and>
                getTopic mq' topicId =
                  Some (t\<lparr>nextSubId := nextSubId t + 1,
                          subscribers := subscribers t @ [(nextSubId t, cb')]\<rparr>))"
proof -
  have inv: "queue_inv mq"
    unfolding assms(1) by (rule queue_inv_run) (rule queue_inv_new)
  have ok: "subs_ok t" using inv assms(3) by (rule queue_inv_topic)
  have 1: "invocations (fst (publish throws mq topicId p uuid now)) =
           map (\<lambda>(subId, cb). (subId, cb, p, topicId, now, uuid)) (subscribers t)"
    using assms(2,3) by (rule publish_invocations)
  have 2: "sorted_wrt (<) (map fst (subscribers t))"
    and 3: "list_all (\<lambda>k. k < nextSubId t) (map fst (subscribers t))"
    using ok by (simp_all add: subs_ok_def)
  have 4: "distinct (map fst (subscribers t))" using 2 by (rule sorted_wrt_less_distinct)
  have 5: "\<exists>mq'. subscribe mq topicId cb' = Inr (nextSubId t, mq') \<and>
                getTopic mq' topicId =
                  Some (t\<lparr>nextSubId := nextSubId t + 1,
                          subscribers := subscribers t @ [(nextSubId t, cb')]\<rparr>)"
    using subscribe_Some[OF assms(3) ok, of cb'] assms(3)
    by (simp add: getTopic_setTopic_same)
  from 1 2 3 4 5 show ?thesis by (intro conjI)
qed

lemma resubscribed_topics:
  "topics resubscribed =
     [\<lparr>id_topic = 0, name = ''news'', subscribers = [(1, 11), (2, 12)],
       buffer_topic = None, nextSubId = 3\<rparr>]"
  by code_simp

lemma resubscribed_open: "isClosed resubscribed = False"
  by code_simp

text \<open>The theorem at a concrete instance.\<close>

theorem publish_invokes_subscribers_in_order_witness:
  "resubscribed = run never_throws (MessageQueue_new ''client-A'' (Some ''tabs'') True)
     [RegisterTopic ''news'', Subscribe 0 10, Subscribe 0 11, Unsubscribe 0 0, Subscribe 0 12] \<and>
   \<not> isClosed resubscribed \<and>
   getTopic resubscribed 0 = Some (topics resubscribed ! 0) \<and>
   subscribers (topics resubscribed ! 0) = [(1, 11), (2, 12)] \<and>
   invocations (fst (publish never_throws resubscribed 0 7 ''m1'' 1000)) =
     [(1, 11, 7, 0, 1000, ''m1''), (2, 12, 7, 0, 1000, ''m1'')]"
proof -
  have r: "resubscribed = run never_throws (MessageQueue_new ''client-A'' (Some ''tabs'') True)
     [RegisterTopic ''news'', Subscribe 0 10, Subscribe 0 11, Unsubscribe 0 0, Subscribe 0 12]"
    by (simp only: resubscribed_def example_queue_def)
  have c: "\<not> isClosed resubscribed" by (simp add: resubscribed_open)
  have g: "getTopic resubscribed 0 = Some (topics resubscribed ! 0)"
    by (simp add: getTopic_def resubscribed_topics)
  have s: "subscribers (topics resubscribed ! 0) = [(1, 11), (2, 12)]"
    by (simp add: resubscribed_topics)
  note th = publish_invokes_subscribers_in_order[where throws = never_throws
      and mq = resubscribed and topicId = 0 and p = 7 and uuid = "''m1''" and now = 1000
      and cb' = 13, OF r c g]
  have i: "invocations (fst (publish never_throws resubscribed 0 7 ''m1'' 1000)) =
     [(1, 11, 7, 0, 1000, ''m1''), (2, 12, 7, 0, 1000, ''m1'')]"
    using th[THEN conjunct1] by (simp add: s)
  from r c g s i show ?thesis by (intro conjI)
qed

lemma closed_then_registered_topics:
  "topics closed_then_registered =
     [\<lparr>id_topic = 0, name = ''news'', subscribers = [(0, 10)],
       buffer_topic = None, nextSubId = 1\<rparr>]"
  by code_simp

lemma closed_then_registered_closed: "isClosed closed_then_registered = True"
  by code_simp

text \<open>
  The claim as first stated fails on a closed instance: after \<open>close\<close>, \<open>registerTopic\<close> and
  \<open>subscribe\<close> still succeed, and a \<open>publish\<close> to that topic invokes no callback, because
  \<open>dispatchLocal\<close> returns at once on a closed instance.
\<close>

theorem publish_invokes_subscribers_counterexample:
  "getTopic closed_then_registered 0 = Some (topics closed_then_registered ! 0) \<and>
   subscribers (topics closed_then_registered ! 0) = [(0, 10)] \<and>
   invocations (fst (publish never_throws closed_then_registered 0 7 ''m1'' 1000)) = []"
proof -
  have g: "getTopic closed_then_registered 0 = Some (topics closed_then_registered ! 0)"
    by (simp add: getTopic_def closed_then_registered_topics)
  have s: "subscribers (topics closed_then_registered ! 0) = [(0, 10)]"
    by (simp add: closed_then_registered_topics)
  have i: "invocations (fst (publish never_throws closed_then_registered 0 7 ''m1'' 1000)) = []"
    by (simp add: publish_closed closed_then_registered_closed)
  from g s i show ?thesis by (intro conjI)
qed

section \<open>Topic registration\<close>

lemma registerTopic_known:
  "topicIndex mq nm = Some i \<Longrightarrow> registerTopic mq nm = (i, mq)"
  by (simp add: registerTopic_def)

lemma registerTopic_index:
  "topicIndex (snd (registerTopic mq nm)) nm = Some (fst (registerTopic mq nm))"
  by (simp add: registerTopic_def Let_def split: option.splits)

lemma registerTopic_new:
  "topicIndex mq nm = None \<Longrightarrow>
   fst (registerTopic mq nm) = int (length (topics mq)) \<and>
   length (topics (snd (registerTopic mq nm))) = Suc (length (topics mq)) \<and>
   dom (topicIndex (snd (registerTopic mq nm))) = insert nm (dom (topicIndex mq))"
  by (simp add: registerTopic_def Let_def)

lemma index_grows_registerTopic:
  "topicIndex mq \<subseteq>\<^sub>m topicIndex (snd (registerTopic mq nm))"
  by (auto simp: registerTopic_def Let_def map_le_def split: option.splits)

lemma topicIndex_dispatchLocal:
  "topicIndex (snd (dispatchLocal throws mq msg)) = topicIndex mq"
  by (simp add: dispatchLocal_def Let_def split: option.splits)

lemma topicIndex_publish:
  "topicIndex (snd (publish throws mq i p u n)) = topicIndex mq"
  using topicIndex_dispatchLocal[of throws mq "createMessage mq i p u n"]
  by (cases "dispatchLocal throws mq (createMessage mq i p u n)") (simp add: publish_def Let_def)

lemma topicIndex_publishBatchById:
  "topicIndex (snd (publishBatchById throws mq i ps)) = topicIndex mq"
proof (induction ps arbitrary: mq)
  case Nil
  then show ?case by simp
next
  case (Cons a ps)
  obtain p u n where a: "a = (p, u, n)" by (cases a) auto
  obtain e mq1 where r: "publish throws mq i p u n = (e, mq1)"
    by (cases "publish throws mq i p u n") auto
  have "topicIndex mq1 = topicIndex mq" using topicIndex_publish[of throws mq i p u n] r by simp
  with Cons.IH[of mq1] show ?case
    by (cases "publishBatchById throws mq1 i ps") (simp add: a r)
qed

lemma index_grows_handleChannelMessage:
  "topicIndex mq \<subseteq>\<^sub>m topicIndex (snd (handleChannelMessage throws mq d))"
proof (cases d)
  case NonArray
  then show ?thesis by (simp add: handleChannelMessage_def)
next
  case (Tagged k w)
  let ?mq1 = "mq\<lparr>seenIds := insert (id_msg w) (seenIds mq)\<rparr>"
  obtain i mq2 where r: "registerTopic ?mq1 (topic_name w) = (i, mq2)"
    by (cases "registerTopic ?mq1 (topic_name w)") auto
  have "topicIndex ?mq1 \<subseteq>\<^sub>m topicIndex mq2"
    using index_grows_registerTopic[of ?mq1 "topic_name w"] r by simp
  then have "topicIndex mq \<subseteq>\<^sub>m topicIndex (snd (dispatchLocal throws mq2 m))" for m
    by (simp add: topicIndex_dispatchLocal)
  then show ?thesis using Tagged r
    by (simp add: handleChannelMessage_def Let_def)
qed

lemma index_grows_api:
  assumes "c \<noteq> Close"
  shows "topicIndex mq \<subseteq>\<^sub>m topicIndex (snd (snd (api throws mq c)))"
proof (cases c)
  case (RegisterTopic nm)
  then show ?thesis using index_grows_registerTopic[of mq nm]
    by (cases "registerTopic mq nm") simp
next
  case (Subscribe i cb)
  then show ?thesis by (auto simp: subscribe_def Let_def split: option.splits)
next
  case (Unsubscribe i k)
  then show ?thesis by (auto simp: unsubscribe_def Let_def split: option.splits prod.splits)
next
  case (UnsubscribeAll i)
  then show ?thesis by (auto simp: unsubscribeAll_def split: option.splits)
next
  case (Publish i p u n)
  then show ?thesis using topicIndex_publish[of throws mq i p u n]
    by (cases "publish throws mq i p u n") simp
next
  case (PublishBatchById i ps)
  then show ?thesis using topicIndex_publishBatchById[of throws mq i ps]
    by (cases "publishBatchById throws mq i ps") simp
next
  case (EnableTopicBuffer i cap)
  then show ?thesis by (auto simp: enableTopicBuffer_def Let_def split: option.splits)
next
  case (DisableTopicBuffer i)
  then show ?thesis by (auto simp: disableTopicBuffer_def split: option.splits)
next
  case (ClearBuffer i)
  then show ?thesis by (auto simp: clearBuffer_def split: option.splits prod.splits)
next
  case (DestroyTopic i)
  then show ?thesis by (auto simp: destroyTopic_def Let_def split: option.splits)
next
  case Close
  with assms show ?thesis by simp
next
  case (ChannelMessage d)
  then show ?thesis using index_grows_handleChannelMessage[of mq throws d]
    by (cases "handleChannelMessage throws mq d") simp
qed

lemma index_grows_run:
  "Close \<notin> set cs \<Longrightarrow> topicIndex mq \<subseteq>\<^sub>m topicIndex (run throws mq cs)"
proof (induction cs arbitrary: mq)
  case Nil
  then show ?case by simp
next
  case (Cons c cs)
  then have "c \<noteq> Close" and "Close \<notin> set cs" by auto
  then show ?case
    using index_grows_api[of c mq throws] Cons.IH[of "snd (snd (api throws mq c))"]
    by (auto intro: map_le_trans)
qed

lemma registerAll_dense:
  "distinct nms \<Longrightarrow> set nms \<inter> dom (topicIndex mq) = {} \<Longrightarrow>
   fst (registerAll mq nms) = map int [length (topics mq)..<length (topics mq) + length nms]"
proof (induction nms arbitrary: mq)
  case Nil
  then show ?case by simp
next
  case (Cons nm nms)
  let ?mq1 = "snd (registerTopic mq nm)"
  from Cons.prems have none: "topicIndex mq nm = None" by auto
  note new = registerTopic_new[OF none]
  have "set nms \<inter> dom (topicIndex ?mq1) = {}" using Cons.prems new by auto
  moreover have "distinct nms" using Cons.prems by simp
  ultimately have ih: "fst (registerAll ?mq1 nms) =
      map int [Suc (length (topics mq))..<Suc (length (topics mq)) + length nms]"
    using Cons.IH[of ?mq1] new by simp
  have "fst (registerAll mq (nm # nms)) = fst (registerTopic mq nm) # fst (registerAll ?mq1 nms)"
    by (cases "registerTopic mq nm"; cases "registerAll ?mq1 nms") simp
  also have "\<dots> = int (length (topics mq)) #
      map int [Suc (length (topics mq))..<Suc (length (topics mq)) + length nms]"
    using new ih by simp
  also have "\<dots> = map int [length (topics mq)..<length (topics mq) + length (nm # nms)]"
  proof -
    have "[length (topics mq)..<length (topics mq) + length (nm # nms)] =
          length (topics mq) # [Suc (length (topics mq))..<length (topics mq) + length (nm # nms)]"
      by (rule upt_conv_Cons) simp
    then show ?thesis by simp
  qed
  finally show ?case .
qed

text \<open>
  C5. \<open>registerTopic\<close> is idempotent: a second call with the same name returns the same id
  and changes nothing, also after \<open>destroyTopic\<close> of that topic, and also after any calls
  other than \<open>close\<close>. Ids are dense: registering pairwise distinct names on a new instance
  returns 0, 1, 2, ... in registration order, and on any instance new names get the ids that
  continue from the number of topics.
\<close>

theorem registerTopic_idempotent_dense:
  "registerTopic (snd (registerTopic mq nm)) nm =
     (fst (registerTopic mq nm), snd (registerTopic mq nm)) \<and>
   fst (registerTopic (snd (destroyTopic (snd (registerTopic mq nm)) (fst (registerTopic mq nm)))) nm) =
     fst (registerTopic mq nm) \<and>
   (Close \<notin> set cs \<longrightarrow>
      fst (registerTopic (run throws (snd (registerTopic mq nm)) cs) nm) = fst (registerTopic mq nm)) \<and>
   (distinct nms \<longrightarrow>
      fst (registerAll (MessageQueue_new cid ch bc) nms) = map int [0..<length nms]) \<and>
   (distinct nms \<and> set nms \<inter> dom (topicIndex mq) = {} \<longrightarrow>
      fst (registerAll mq nms) =
        map int [length (topics mq)..<length (topics mq) + length nms])"
proof (intro conjI impI)
  let ?i = "fst (registerTopic mq nm)" and ?mq1 = "snd (registerTopic mq nm)"
  have idx: "topicIndex ?mq1 nm = Some ?i" by (rule registerTopic_index)
  then show "registerTopic ?mq1 nm = (?i, ?mq1)" by (rule registerTopic_known)
  have "topicIndex (snd (destroyTopic ?mq1 ?i)) nm = Some ?i"
    using idx by (simp add: destroyTopic_def Let_def split: option.splits)
  then show "fst (registerTopic (snd (destroyTopic ?mq1 ?i)) nm) = ?i"
    by (simp add: registerTopic_known)
  {
    assume "Close \<notin> set cs"
    then have "topicIndex ?mq1 \<subseteq>\<^sub>m topicIndex (run throws ?mq1 cs)" by (rule index_grows_run)
    with idx have "topicIndex (run throws ?mq1 cs) nm = Some ?i"
      by (auto simp: map_le_def dom_def)
    then show "fst (registerTopic (run throws ?mq1 cs) nm) = ?i"
      by (simp add: registerTopic_known)
  }
  {
    assume "distinct nms"
    then show "fst (registerAll (MessageQueue_new cid ch bc) nms) = map int [0..<length nms]"
      using registerAll_dense[of nms "MessageQueue_new cid ch bc"]
      by (simp add: MessageQueue_new_def)
  }
  {
    assume "distinct nms \<and> set nms \<inter> dom (topicIndex mq) = {}"
    then show "fst (registerAll mq nms) =
        map int [length (topics mq)..<length (topics mq) + length nms]"
      using registerAll_dense[of nms mq] by simp
  }
qed

text \<open>The theorem at a concrete instance.\<close>

theorem registerTopic_idempotent_dense_witness:
  "fst (registerTopic two_topics ''logs'') = 1 \<and>
   registerTopic (snd (registerTopic two_topics ''logs'')) ''logs'' =
     (1, snd (registerTopic two_topics ''logs'')) \<and>
   fst (registerTopic (snd (destroyTopic (snd (registerTopic two_topics ''logs'')) 1)) ''logs'') = 1 \<and>
   Close \<notin> set [Subscribe 1 30, DestroyTopic 1, RegisterTopic ''alerts'',
                   Publish 1 9 ''m3'' 1002 :: (nat, nat) call] \<and>
   fst (registerTopic
         (run never_throws (snd (registerTopic two_topics ''logs''))
            [Subscribe 1 30, DestroyTopic 1, RegisterTopic ''alerts'', Publish 1 9 ''m3'' 1002])
         ''logs'') = 1 \<and>
   distinct [''a'', ''b'', ''c''] \<and>
   fst (registerAll (MessageQueue_new ''client-A'' None False :: (nat, nat) MessageQueue)
          [''a'', ''b'', ''c'']) = [0, 1, 2] \<and>
   set [''a'', ''b''] \<inter> dom (topicIndex two_topics) = {} \<and>
   fst (registerAll two_topics [''a'', ''b'']) = [2, 3]"
proof -
  have i: "fst (registerTopic two_topics ''logs'') = 1" by code_simp
  have nc: "Close \<notin> set [Subscribe 1 30, DestroyTopic 1, RegisterTopic ''alerts'',
                          Publish 1 9 ''m3'' (1002 :: int) :: (nat, nat) call]"
    by simp
  have d3: "distinct [''a'', ''b'', ''c'']" and d2: "distinct [''a'', ''b'']" by simp_all
  have "topicIndex two_topics ''a'' = None" "topicIndex two_topics ''b'' = None" by code_simp+
  then have dj: "set [''a'', ''b''] \<inter> dom (topicIndex two_topics) = {}" by (auto simp: dom_def)
  note th1 = registerTopic_idempotent_dense[where mq = two_topics and nm = "''logs''"
      and throws = never_throws and cid = "''client-A''" and ch = None and bc = False
      and nms = "[''a'', ''b'', ''c'']"
      and cs = "[Subscribe 1 30, DestroyTopic 1, RegisterTopic ''alerts'', Publish 1 9 ''m3'' 1002]"]
  note th2 = registerTopic_idempotent_dense[where mq = two_topics and nm = "''logs''"
      and throws = never_throws and cid = "''client-A''" and ch = None and bc = False
      and nms = "[''a'', ''b'']" and cs = "[]"]
  have 1: "registerTopic (snd (registerTopic two_topics ''logs'')) ''logs'' =
     (1, snd (registerTopic two_topics ''logs''))"
    using th1[THEN conjunct1] i by simp
  have 2: "fst (registerTopic (snd (destroyTopic (snd (registerTopic two_topics ''logs'')) 1)) ''logs'') = 1"
    using th1[THEN conjunct2, THEN conjunct1] i by simp
  have 3: "fst (registerTopic
         (run never_throws (snd (registerTopic two_topics ''logs''))
            [Subscribe 1 30, DestroyTopic 1, RegisterTopic ''alerts'', Publish 1 9 ''m3'' 1002])
         ''logs'') = 1"
    using th1[THEN conjunct2, THEN conjunct2, THEN conjunct1, rule_format, OF nc] i by simp
  have 4: "fst (registerAll (MessageQueue_new ''client-A'' None False :: (nat, nat) MessageQueue)
          [''a'', ''b'', ''c'']) = [0, 1, 2]"
    using th1[THEN conjunct2, THEN conjunct2, THEN conjunct2, THEN conjunct1, rule_format, OF d3]
    by (simp add: upt_rec)
  have 5: "fst (registerAll two_topics [''a'', ''b'']) = [2, 3]"
    using th2[THEN conjunct2, THEN conjunct2, THEN conjunct2, THEN conjunct2, rule_format,
              OF conjI[OF d2 dj]]
    by (simp add: two_topics_len upt_rec)
  from i 1 2 nc 3 d3 4 dj 5 show ?thesis by (intro conjI)
qed

section \<open>Shutdown\<close>

lemma clearTopic_cleared:
  "subscribers (clearTopic t) = [] \<and>
   (case buffer_topic (clearTopic t) of None \<Rightarrow> True | Some rb \<Rightarrow> len rb = 0 \<and> getAll rb = [])"
  by (cases "buffer_topic t")
     (simp_all add: clearTopic_def Let_def clear_def len_def getAll_def isEmpty_def)

lemma close_state:
  "snd (close mq) = mq\<lparr>isClosed := True, channel := None, topics := [],
                        topicIndex := Map.empty, seenIds := {}\<rparr>"
  by (simp add: close_def Let_def split: option.splits)

lemma subscribe_unknown:
  "getTopic mq topicId = None \<Longrightarrow> subscribe mq topicId cb = Inl (TopicNotFound topicId)"
  by (simp add: subscribe_def)

lemma publishBatchById_closed:
  "isClosed mq \<Longrightarrow> publishBatchById throws mq topicId ps = ([], mq)"
  by (induction ps) (auto simp: publish_closed)

lemma closed_empty_api:
  assumes "isClosed mq" "topics mq = []" "publish_or_subscribe c"
  shows "snd (snd (api throws mq c)) = mq"
proof (cases c)
  case (Subscribe i cb)
  have "getTopic mq i = None" using assms(2) by (simp add: getTopic_def)
  then show ?thesis using Subscribe by (simp add: subscribe_unknown)
next
  case (Publish i p u n)
  then show ?thesis using assms(1) by (simp add: publish_closed)
next
  case (PublishBatchById i ps)
  then show ?thesis using assms(1) by (simp add: publishBatchById_closed)
qed (use assms(3) in simp_all)

lemma closed_empty_run:
  "isClosed mq \<Longrightarrow> topics mq = [] \<Longrightarrow> list_all publish_or_subscribe cs \<Longrightarrow>
   run throws mq cs = mq"
  by (induction cs) (simp_all add: closed_empty_api)

text \<open>
  C7 (amended). \<open>close\<close> marks the instance closed, releases the channel handle (closing the
  channel when one was open), clears the subscriber table and the ring buffer of every topic,
  and empties the topic table, the name index and the seen-set. After \<open>close\<close>, every
  \<open>publish\<close> returns normally with no effect and leaves the instance unchanged; every
  \<open>subscribe\<close> raises the topic-not-found error, the topic table being empty, and leaves the
  instance unchanged; so the instance stays empty through any sequence of such calls.
\<close>

theorem close_then_publish_subscribe:
  "isClosed (snd (close mq)) = True \<and>
   channel (snd (close mq)) = None \<and>
   fst (close mq) = (if channel mq = None then [] else [ChannelClose]) \<and>
   list_all (\<lambda>t. subscribers t = [] \<and>
                 (case buffer_topic t of None \<Rightarrow> True | Some rb \<Rightarrow> len rb = 0 \<and> getAll rb = []))
     (map clearTopic (topics mq)) \<and>
   topics (snd (close mq)) = [] \<and>
   topicIndex (snd (close mq)) = Map.empty \<and>
   seenIds (snd (close mq)) = {} \<and>
   api throws (snd (close mq)) (Publish topicId p uuid now) = (Returned_void, [], snd (close mq)) \<and>
   api throws (snd (close mq)) (Subscribe topicId cb) =
     (Raised (TopicNotFound topicId), [], snd (close mq)) \<and>
   (list_all publish_or_subscribe cs \<longrightarrow> run throws (snd (close mq)) cs = snd (close mq))"
proof (intro conjI impI)
  show "fst (close mq) = (if channel mq = None then [] else [ChannelClose])"
    by (simp add: close_def Let_def split: option.splits)
  show "list_all (\<lambda>t. subscribers t = [] \<and>
                 (case buffer_topic t of None \<Rightarrow> True | Some rb \<Rightarrow> len rb = 0 \<and> getAll rb = []))
     (map clearTopic (topics mq))"
    by (simp add: list_all_iff clearTopic_cleared)
  have g: "getTopic (snd (close mq)) topicId = None" by (simp add: close_state getTopic_def)
  show "api throws (snd (close mq)) (Publish topicId p uuid now) = (Returned_void, [], snd (close mq))"
    by (simp add: publish_closed close_state)
  show "api throws (snd (close mq)) (Subscribe topicId cb) =
     (Raised (TopicNotFound topicId), [], snd (close mq))"
    using g by (simp add: subscribe_unknown)
  show "run throws (snd (close mq)) cs = snd (close mq)" if "list_all publish_or_subscribe cs"
    using that by (intro closed_empty_run) (simp_all add: close_state)
qed (simp_all add: close_state)

text \<open>The theorem at a concrete instance.\<close>

theorem close_then_publish_subscribe_witness:
  "isClosed (snd (close two_topics)) = True \<and>
   fst (close two_topics) = [ChannelClose] \<and>
   topics (snd (close two_topics)) = [] \<and>
   seenIds (snd (close two_topics)) = {} \<and>
   api never_throws (snd (close two_topics)) (Publish 0 7 ''m5'' 2000) =
     (Returned_void, [], snd (close two_topics)) \<and>
   api never_throws (snd (close two_topics)) (Subscribe 0 10) =
     (Raised (TopicNotFound 0), [], snd (close two_topics)) \<and>
   list_all publish_or_subscribe [Publish 0 7 ''m5'' 2000, Subscribe 0 10 :: (nat, nat) call] \<and>
   run never_throws (snd (close two_topics)) [Publish 0 7 ''m5'' 2000, Subscribe 0 10] =
     snd (close two_topics)"
proof -
  note th = close_then_publish_subscribe[where mq = two_topics and throws = never_throws
      and topicId = 0 and p = 7 and uuid = "''m5''" and now = 2000 and cb = 10
      and cs = "[Publish 0 7 ''m5'' 2000, Subscribe 0 10]"]
  have ch: "channel two_topics = Some ''tabs''" by code_simp
  have la: "list_all publish_or_subscribe [Publish 0 7 ''m5'' 2000, Subscribe 0 10 :: (nat, nat) call]"
    by simp
  show ?thesis using th ch la by simp
qed

text \<open>
  The claim as first stated fails on \<open>subscribe\<close>: before \<open>close\<close> the call returns a
  subscription id, after \<open>close\<close> the same call raises \<open>TopicNotFound\<close> to the caller.
\<close>

theorem close_then_subscribe_counterexample:
  "fst (api never_throws two_topics (Subscribe 0 10)) = Returned_number 1 \<and>
   fst (api never_throws (snd (close two_topics)) (Subscribe 0 10)) = Raised (TopicNotFound 0)"
proof -
  have 1: "fst (api never_throws two_topics (Subscribe 0 10)) = Returned_number 1" by code_simp
  have "getTopic (snd (close two_topics)) 0 = None" by (simp add: close_state getTopic_def)
  then have 2: "fst (api never_throws (snd (close two_topics)) (Subscribe 0 10)) = Raised (TopicNotFound 0)"
    by (simp add: subscribe_unknown)
  from 1 2 show ?thesis by (intro conjI)
qed

section \<open>Inbound channel messages\<close>

lemma isClosed_registerTopic: "isClosed (snd (registerTopic mq nm)) = isClosed mq"
  by (simp add: registerTopic_def Let_def split: option.splits)

lemma seenIds_registerTopic: "seenIds (snd (registerTopic mq nm)) = seenIds mq"
  by (simp add: registerTopic_def Let_def split: option.splits)

lemma registerTopic_new_topic:
  "topicIndex mq nm = None \<Longrightarrow>
   getTopic (snd (registerTopic mq nm)) (fst (registerTopic mq nm)) =
     Some \<lparr>id_topic = int (length (topics mq)), name = nm, subscribers = [],
           buffer_topic = None, nextSubId = 0\<rparr>"
  by (simp add: registerTopic_def Let_def getTopic_def)

lemma handleChannelMessage_ignored:
  "isClosed mq \<or> kind \<noteq> 0 \<or> id_msg w \<in> seenIds mq \<Longrightarrow>
   handleChannelMessage throws mq (Tagged kind w) = ([], mq)"
  by (auto simp: handleChannelMessage_def)

lemma handleChannelMessage_own:
  "\<not> isClosed mq \<Longrightarrow> id_msg w \<notin> seenIds mq \<Longrightarrow> origin_id w = clientId mq \<Longrightarrow>
   handleChannelMessage throws mq (Tagged 0 w) =
     ([], mq\<lparr>seenIds := insert (id_msg w) (seenIds mq)\<rparr>)"
  by (simp add: handleChannelMessage_def Let_def)

lemma handleChannelMessage_remote:
  "\<not> isClosed mq \<Longrightarrow> id_msg w \<notin> seenIds mq \<Longrightarrow> origin_id w \<noteq> clientId mq \<Longrightarrow>
   handleChannelMessage throws mq (Tagged 0 w) =
     dispatchLocal throws
       (snd (registerTopic (mq\<lparr>seenIds := insert (id_msg w) (seenIds mq)\<rparr>) (topic_name w)))
       \<lparr>id_msg = id_msg w,
        topic_id = fst (registerTopic (mq\<lparr>seenIds := insert (id_msg w) (seenIds mq)\<rparr>) (topic_name w)),
        origin_id = origin_id w, payload = payload w, timestamp = timestamp w\<rparr>"
  by (simp add: handleChannelMessage_def Let_def split: prod.splits)

text \<open>
  C6 (amended). On receipt of channel data by an instance in any state reached from a new
  instance: data that is not an array, a kind other than 0, an envelope id already in the
  seen-set, or a closed instance leave the instance unchanged with no effect. Otherwise the id
  is added to the seen-set. If the envelope's origin id is the instance's own client id,
  nothing else happens. If not, the topic is resolved by name, a new local topic being
  created at the next id when the name is unknown, and a message carrying the locally
  resolved topic id is dispatched: each subscriber of that topic is invoked once, in order,
  and nothing is posted to the broadcast channel.
\<close>

theorem handleChannelMessage_cases:
  assumes "mq = run throws (MessageQueue_new cid ch bc) cs"
  shows "handleChannelMessage throws mq NonArray = ([], mq) \<and>
    (isClosed mq \<or> kind \<noteq> 0 \<or> id_msg w \<in> seenIds mq \<longrightarrow>
       handleChannelMessage throws mq (Tagged kind w) = ([], mq)) \<and>
    (\<not> isClosed mq \<and> kind = 0 \<and> id_msg w \<notin> seenIds mq \<and> origin_id w = clientId mq \<longrightarrow>
       handleChannelMessage throws mq (Tagged kind w) =
         ([], mq\<lparr>seenIds := insert (id_msg w) (seenIds mq)\<rparr>)) \<and>
    (\<not> isClosed mq \<and> kind = 0 \<and> id_msg w \<notin> seenIds mq \<and> origin_id w \<noteq> clientId mq \<longrightarrow>
       (\<exists>topicId t mq'.
          registerTopic (mq\<lparr>seenIds := insert (id_msg w) (seenIds mq)\<rparr>) (topic_name w) =
            (topicId, mq') \<and>
          getTopic mq' topicId = Some t \<and> name t = topic_name w \<and>
          (topicIndex mq (topic_name w) = None \<longrightarrow>
             topicId = int (length (topics mq)) \<and> subscribers t = []) \<and>
          handleChannelMessage throws mq (Tagged kind w) =
            dispatchLocal throws mq'
              \<lparr>id_msg = id_msg w, topic_id = topicId, origin_id = origin_id w,
               payload = payload w, timestamp = timestamp w\<rparr> \<and>
          invocations (fst (handleChannelMessage throws mq (Tagged kind w))) =
            map (\<lambda>(subId, cb). (subId, cb, payload w, topicId, timestamp w, id_msg w))
              (subscribers t) \<and>
          posted (fst (handleChannelMessage throws mq (Tagged kind w))) = [] \<and>
          id_msg w \<in> seenIds (snd (handleChannelMessage throws mq (Tagged kind w))) \<and>
          topicIndex (snd (handleChannelMessage throws mq (Tagged kind w))) (topic_name w) =
            Some topicId))"
proof (intro conjI impI)
  show "handleChannelMessage throws mq NonArray = ([], mq)"
    by (simp add: handleChannelMessage_def)
next
  assume "isClosed mq \<or> kind \<noteq> 0 \<or> id_msg w \<in> seenIds mq"
  then show "handleChannelMessage throws mq (Tagged kind w) = ([], mq)"
    by (rule handleChannelMessage_ignored)
next
  assume "\<not> isClosed mq \<and> kind = 0 \<and> id_msg w \<notin> seenIds mq \<and> origin_id w = clientId mq"
  then show "handleChannelMessage throws mq (Tagged kind w) =
         ([], mq\<lparr>seenIds := insert (id_msg w) (seenIds mq)\<rparr>)"
    by (simp add: handleChannelMessage_own)
next
  assume a: "\<not> isClosed mq \<and> kind = 0 \<and> id_msg w \<notin> seenIds mq \<and> origin_id w \<noteq> clientId mq"
  let ?mq1 = "mq\<lparr>seenIds := insert (id_msg w) (seenIds mq)\<rparr>"
  let ?i = "fst (registerTopic ?mq1 (topic_name w))"
  let ?mq2 = "snd (registerTopic ?mq1 (topic_name w))"
  let ?msg = "\<lparr>id_msg = id_msg w, topic_id = ?i, origin_id = origin_id w,
               payload = payload w, timestamp = timestamp w\<rparr>"
  have inv: "queue_inv mq"
    unfolding assms by (rule queue_inv_run) (rule queue_inv_new)
  then have inv2: "queue_inv ?mq2"
    by (intro queue_inv_registerTopic queue_inv_seenIds)
  have idx: "topicIndex ?mq2 (topic_name w) = Some ?i" by (rule registerTopic_index)
  with inv2 obtain t where t: "getTopic ?mq2 ?i = Some t" "name t = topic_name w"
    by (auto simp: queue_inv_def index_ok_def)
  have op: "\<not> isClosed ?mq2" using a by (simp add: isClosed_registerTopic)
  have h: "handleChannelMessage throws mq (Tagged kind w) = dispatchLocal throws ?mq2 ?msg"
    using a by (simp add: handleChannelMessage_remote)
  have e: "fst (dispatchLocal throws ?mq2 ?msg) = notify throws (subscribers t) ?msg"
    using dispatchLocal_known[of ?mq2 ?msg t throws] op t(1) by simp
  have s: "snd (dispatchLocal throws ?mq2 ?msg) =
     setTopic (?mq2\<lparr>seenIds := insert (id_msg ?msg) (seenIds ?mq2)\<rparr>) (topic_id ?msg)
       (case buffer_topic t of
          None \<Rightarrow> t
        | Some rb \<Rightarrow> t\<lparr>buffer_topic := Some (snd (push ?msg rb))\<rparr>)"
    using dispatchLocal_known_state[of ?mq2 ?msg t throws] op t(1) by simp
  have new: "?i = int (length (topics mq)) \<and> subscribers t = []"
    if "topicIndex mq (topic_name w) = None"
  proof -
    from that have n: "topicIndex ?mq1 (topic_name w) = None" by simp
    have "?i = int (length (topics ?mq1))" using registerTopic_new[OF n] by simp
    moreover have "subscribers t = []" using registerTopic_new_topic[OF n] t(1) by auto
    ultimately show ?thesis by simp
  qed
  have 1: "registerTopic ?mq1 (topic_name w) = (?i, ?mq2)" by simp
  have 5: "invocations (fst (handleChannelMessage throws mq (Tagged kind w))) =
            map (\<lambda>(subId, cb). (subId, cb, payload w, ?i, timestamp w, id_msg w)) (subscribers t)"
    by (simp add: h e invocations_notify)
  have 6: "posted (fst (handleChannelMessage throws mq (Tagged kind w))) = []"
    by (simp add: h e posted_notify)
  have 7: "id_msg w \<in> seenIds (snd (handleChannelMessage throws mq (Tagged kind w)))"
    unfolding h s by simp
  have 8: "topicIndex (snd (handleChannelMessage throws mq (Tagged kind w))) (topic_name w) = Some ?i"
    unfolding h s using idx by simp
  show "\<exists>topicId t mq'.
          registerTopic ?mq1 (topic_name w) = (topicId, mq') \<and>
          getTopic mq' topicId = Some t \<and> name t = topic_name w \<and>
          (topicIndex mq (topic_name w) = None \<longrightarrow>
             topicId = int (length (topics mq)) \<and> subscribers t = []) \<and>
          handleChannelMessage throws mq (Tagged kind w) =
            dispatchLocal throws mq'
              \<lparr>id_msg = id_msg w, topic_id = topicId, origin_id = origin_id w,
               payload = payload w, timestamp = timestamp w\<rparr> \<and>
          invocations (fst (handleChannelMessage throws mq (Tagged kind w))) =
            map (\<lambda>(subId, cb). (subId, cb, payload w, topicId, timestamp w, id_msg w))
              (subscribers t) \<and>
          posted (fst (handleChannelMessage throws mq (Tagged kind w))) = [] \<and>
          id_msg w \<in> seenIds (snd (handleChannelMessage throws mq (Tagged kind w))) \<and>
          topicIndex (snd (handleChannelMessage throws mq (Tagged kind w))) (topic_name w) =
            Some topicId"
    using 1 t new h 5 6 7 8 by (intro exI[of _ ?i] exI[of _ t] exI[of _ ?mq2]) blast
qed

lemma one_topic_index: "topicIndex one_topic ''news'' = Some 0" "topicIndex one_topic ''alerts'' = None"
  by code_simp+

text \<open>
  The claim as first stated fails for an envelope whose origin id is the receiving
  instance's own client id: kind 0 and an unseen id, yet no subscriber of the named topic
  is invoked and no topic receives the message.
\<close>

theorem handleChannelMessage_counterexample:
  "\<not> isClosed one_topic \<and>
   id_msg own_origin_news \<notin> seenIds one_topic \<and>
   topicIndex one_topic (topic_name own_origin_news) = Some 0 \<and>
   subscribers (topics one_topic ! 0) = [(0, 10), (1, 11)] \<and>
   fst (handleChannelMessage never_throws one_topic (Tagged 0 own_origin_news)) = [] \<and>
   topics (snd (handleChannelMessage never_throws one_topic (Tagged 0 own_origin_news))) =
     topics one_topic"
proof -
  have 1: "\<not> isClosed one_topic" by (simp add: one_topic_fields)
  have 2: "id_msg own_origin_news \<notin> seenIds one_topic"
    by (simp add: one_topic_fields own_origin_news_def)
  have 3: "topicIndex one_topic (topic_name own_origin_news) = Some 0"
    by (simp add: one_topic_index own_origin_news_def)
  have 4: "subscribers (topics one_topic ! 0) = [(0, 10), (1, 11)]"
    by (simp add: one_topic_topics)
  have o: "origin_id own_origin_news = clientId one_topic"
    by (simp add: one_topic_fields own_origin_news_def)
  note h = handleChannelMessage_own[where throws = never_throws, OF 1 2 o]
  have 5: "fst (handleChannelMessage never_throws one_topic (Tagged 0 own_origin_news)) = []"
    by (simp add: h)
  have 6: "topics (snd (handleChannelMessage never_throws one_topic (Tagged 0 own_origin_news))) =
     topics one_topic"
    by (simp add: h)
  from 1 2 3 4 5 6 show ?thesis by (intro conjI)
qed

text \<open>The theorem at a concrete instance.\<close>

theorem handleChannelMessage_cases_witness:
  "one_topic = run never_throws (MessageQueue_new ''client-A'' (Some ''tabs'') True)
     [RegisterTopic ''news'', Subscribe 0 10, Subscribe 0 11, EnableTopicBuffer 0 (Some 2),
      Publish 0 7 ''m1'' 1000] \<and>
   handleChannelMessage never_throws one_topic (Tagged 1 remote_news) = ([], one_topic) \<and>
   \<not> isClosed one_topic \<and>
   id_msg own_origin_news \<notin> seenIds one_topic \<and>
   origin_id own_origin_news = clientId one_topic \<and>
   handleChannelMessage never_throws one_topic (Tagged 0 own_origin_news) =
     ([], one_topic\<lparr>seenIds := insert ''m9'' (seenIds one_topic)\<rparr>) \<and>
   id_msg remote_news \<notin> seenIds one_topic \<and>
   origin_id remote_news \<noteq> clientId one_topic \<and>
   invocations (fst (handleChannelMessage never_throws one_topic (Tagged 0 remote_news))) =
     [(0, 10, 9, 0, 2000, ''m7''), (1, 11, 9, 0, 2000, ''m7'')] \<and>
   posted (fst (handleChannelMessage never_throws one_topic (Tagged 0 remote_news))) = [] \<and>
   id_msg remote_alerts \<notin> seenIds one_topic \<and>
   origin_id remote_alerts \<noteq> clientId one_topic \<and>
   topicIndex (snd (handleChannelMessage never_throws one_topic (Tagged 0 remote_alerts))) ''alerts'' =
     Some 1"
proof -
  have r: "one_topic = run never_throws (MessageQueue_new ''client-A'' (Some ''tabs'') True)
     [RegisterTopic ''news'', Subscribe 0 10, Subscribe 0 11, EnableTopicBuffer 0 (Some 2),
      Publish 0 7 ''m1'' 1000]"
    by (simp only: one_topic_def example_queue_def)
  have c: "\<not> isClosed one_topic" by (simp add: one_topic_fields)
  have o1: "id_msg own_origin_news \<notin> seenIds one_topic"
    and o2: "origin_id own_origin_news = clientId one_topic"
    by (simp_all add: one_topic_fields own_origin_news_def)
  have n1: "id_msg remote_news \<notin> seenIds one_topic"
    and n2: "origin_id remote_news \<noteq> clientId one_topic"
    by (simp_all add: one_topic_fields remote_news_def)
  have a1: "id_msg remote_alerts \<notin> seenIds one_topic"
    and a2: "origin_id remote_alerts \<noteq> clientId one_topic"
    by (simp_all add: one_topic_fields remote_alerts_def)
  note th1 = handleChannelMessage_cases[where throws = never_throws and mq = one_topic
      and kind = 1 and w = remote_news, OF r]
  note th2 = handleChannelMessage_cases[where throws = never_throws and mq = one_topic
      and kind = 0 and w = own_origin_news, OF r]
  note th3 = handleChannelMessage_cases[where throws = never_throws and mq = one_topic
      and kind = 0 and w = remote_news, OF r]
  note th4 = handleChannelMessage_cases[where throws = never_throws and mq = one_topic
      and kind = 0 and w = remote_alerts, OF r]
  have 1: "handleChannelMessage never_throws one_topic (Tagged 1 remote_news) = ([], one_topic)"
    using th1[THEN conjunct2, THEN conjunct1] by simp
  have 2: "handleChannelMessage never_throws one_topic (Tagged 0 own_origin_news) =
     ([], one_topic\<lparr>seenIds := insert ''m9'' (seenIds one_topic)\<rparr>)"
    using th2[THEN conjunct2, THEN conjunct2, THEN conjunct1] c o1 o2
    by (simp add: own_origin_news_def)
  let ?mq1 = "one_topic\<lparr>seenIds := insert (id_msg remote_news) (seenIds one_topic)\<rparr>"
  from th3[THEN conjunct2, THEN conjunct2, THEN conjunct2] c n1 n2
  obtain topicId t mq' where
    reg: "registerTopic ?mq1 (topic_name remote_news) = (topicId, mq')" and
    g: "getTopic mq' topicId = Some t" and
    inv: "invocations (fst (handleChannelMessage never_throws one_topic (Tagged 0 remote_news))) =
            map (\<lambda>(subId, cb). (subId, cb, payload remote_news, topicId, timestamp remote_news,
                               id_msg remote_news)) (subscribers t)" and
    3: "posted (fst (handleChannelMessage never_throws one_topic (Tagged 0 remote_news))) = []"
    by auto
  have "topicIndex ?mq1 (topic_name remote_news) = Some 0"
    by (simp add: one_topic_index remote_news_def)
  from registerTopic_known[OF this] reg have "topicId = 0" "mq' = ?mq1" by simp_all
  with g have "t = topics one_topic ! 0" by (simp add: getTopic_def one_topic_topics)
  then have "subscribers t = [(0, 10), (1, 11)]" by (simp add: one_topic_topics)
  with inv \<open>topicId = 0\<close> have 4:
    "invocations (fst (handleChannelMessage never_throws one_topic (Tagged 0 remote_news))) =
     [(0, 10, 9, 0, 2000, ''m7''), (1, 11, 9, 0, 2000, ''m7'')]"
    by (simp add: remote_news_def)
  from th4[THEN conjunct2, THEN conjunct2, THEN conjunct2] c a1 a2
  obtain topicId' where
    new: "topicIndex one_topic (topic_name remote_alerts) = None \<longrightarrow>
            topicId' = int (length (topics one_topic))" and
    idx: "topicIndex (snd (handleChannelMessage never_throws one_topic (Tagged 0 remote_alerts)))
            (topic_name remote_alerts) = Some topicId'"
    by auto
  have "topicIndex one_topic (topic_name remote_alerts) = None"
    by (simp add: one_topic_index remote_alerts_def)
  with new have "topicId' = 1" by (simp add: one_topic_topics)
  with idx have 5:
    "topicIndex (snd (handleChannelMessage never_throws one_topic (Tagged 0 remote_alerts))) ''alerts'' =
     Some 1"
    by (simp add: remote_alerts_def)
  from r 1 c o1 o2 2 n1 n2 4 3 a1 a2 5 show ?thesis by (intro conjI)
qed

end
